theory Spec2Isabelle
  imports Main
begin

section \<open>JavaScript strings and numbers\<close>

text \<open>
  Strings of the service are modelled as \<^typ>\<open>string\<close>: every character is a code unit
  below 256 (the Latin-1 part of UTF-16).

  A JavaScript number is a double.  The numbers of the service are integers, and they
  are modelled as mathematical integers, with \<open>None\<close> for \<open>NaN\<close>.  A double holds
  every integer up to \<open>2 ^ 53\<close> in magnitude exactly; beyond that the code rounds, and
  overflows to \<open>Infinity\<close>, where the model does not.  The ids of the service stay far
  below that bound.  Where a request can supply a number of any size, in the \<open>page\<close>
  and \<open>limit\<close> parameters of the list request, the theorems carry the bound as a
  hypothesis and say nothing beyond it.
\<close>

text \<open>The characters that \<open>\s\<close>, \<open>String.prototype.trim\<close> and \<open>parseInt\<close> treat as
  white space, by code unit: TAB, LF, VT, FF, CR, SP, NBSP.\<close>

definition isWhiteSpace :: "char \<Rightarrow> bool" where
  "isWhiteSpace c = ((of_char c :: nat) \<in> set [9, 10, 11, 12, 13, 32, 160])"

definition trim :: "string \<Rightarrow> string" where
  "trim s = rev (dropWhile isWhiteSpace (rev (dropWhile isWhiteSpace s)))"

text \<open>\<open>String.prototype.toLowerCase\<close> on code units below 256: the letters A-Z and the
  Latin-1 capitals U+00C0..U+00DE (without the multiplication sign U+00D7) move up
  by 32.\<close>

definition lowerChar :: "char \<Rightarrow> char" where
  "lowerChar c =
     (let n = (of_char c :: nat)
      in if (65 \<le> n \<and> n \<le> 90) \<or> (192 \<le> n \<and> n \<le> 222 \<and> n \<noteq> 215)
         then char_of (n + 32) else c)"

definition toLowerCase :: "string \<Rightarrow> string" where
  "toLowerCase s = map lowerChar s"

text \<open>\<open>String.prototype.includes\<close>: does the pattern occur as a substring.\<close>

fun includesStr :: "string \<Rightarrow> string \<Rightarrow> bool" where
  "includesStr [] p = (p = [])"
| "includesStr (c # cs) p = (take (length p) (c # cs) = p \<or> includesStr cs p)"

text \<open>The value of a character as a digit (0-9, a-z, A-Z), as \<open>parseInt\<close> reads it.\<close>

definition digitValue :: "char \<Rightarrow> nat option" where
  "digitValue c =
     (let n = (of_char c :: nat)
      in if 48 \<le> n \<and> n \<le> 57 then Some (n - 48)
         else if 97 \<le> n \<and> n \<le> 122 then Some (n - 87)
         else if 65 \<le> n \<and> n \<le> 90 then Some (n - 55)
         else None)"

definition isRadixDigit :: "nat \<Rightarrow> char \<Rightarrow> bool" where
  "isRadixDigit r c = (case digitValue c of None \<Rightarrow> False | Some d \<Rightarrow> d < r)"

definition radixValue :: "nat \<Rightarrow> string \<Rightarrow> nat" where
  "radixValue r z = foldl (\<lambda>acc c. acc * r + the (digitValue c)) 0 z"

text \<open>
  \<open>parseInt(string)\<close> with no radix argument: leading white space is skipped, one sign
  is read, a prefix \<open>0x\<close> or \<open>0X\<close> switches to radix 16, and the longest run of digits
  is the number.  Whatever follows the digits is ignored; no digit at all gives \<open>NaN\<close>.
  The result here is the integer the digits denote; the code returns the double
  nearest to it, which is the same number up to \<open>2 ^ 53\<close> in magnitude.
\<close>

definition parseInt :: "string \<Rightarrow> int option" where
  "parseInt inputString =
     (let S = dropWhile isWhiteSpace inputString;
          sign = (if S \<noteq> [] \<and> hd S = CHR ''-'' then - 1 else (1 :: int));
          S = (if S \<noteq> [] \<and> (hd S = CHR ''+'' \<or> hd S = CHR ''-'') then tl S else S);
          stripPrefix = (take 2 S = ''0x'' \<or> take 2 S = ''0X'');
          R = (if stripPrefix then 16 else 10);
          S = (if stripPrefix then drop 2 S else S);
          Z = takeWhile (isRadixDigit R) S
      in if Z = [] then None else Some (sign * int (radixValue R Z)))"

section \<open>Regular expressions\<close>

text \<open>
  The pattern of \<open>isValidEmail\<close> is kept as a regular expression and run by a
  derivative matcher.  Both ends of the pattern are anchored and it has no flag, so
  \<open>test\<close> is a match of the whole string.
\<close>

datatype rexp =
    Zero
  | One
  | Lit char
  | Class "char \<Rightarrow> bool"
  | Alt rexp rexp
  | Seq rexp rexp
  | Star rexp

definition Plus :: "rexp \<Rightarrow> rexp" where
  "Plus r = Seq r (Star r)"

fun nullable :: "rexp \<Rightarrow> bool" where
  "nullable Zero = False"
| "nullable One = True"
| "nullable (Lit c) = False"
| "nullable (Class P) = False"
| "nullable (Alt r s) = (nullable r \<or> nullable s)"
| "nullable (Seq r s) = (nullable r \<and> nullable s)"
| "nullable (Star r) = True"

fun deriv :: "char \<Rightarrow> rexp \<Rightarrow> rexp" where
  "deriv c Zero = Zero"
| "deriv c One = Zero"
| "deriv c (Lit d) = (if c = d then One else Zero)"
| "deriv c (Class P) = (if P c then One else Zero)"
| "deriv c (Alt r s) = Alt (deriv c r) (deriv c s)"
| "deriv c (Seq r s) =
     (if nullable r then Alt (Seq (deriv c r) s) (deriv c s) else Seq (deriv c r) s)"
| "deriv c (Star r) = Seq (deriv c r) (Star r)"

fun matches :: "rexp \<Rightarrow> string \<Rightarrow> bool" where
  "matches r [] = nullable r"
| "matches r (c # cs) = matches (deriv c r) cs"

text \<open>The class \<open>[^\s@]\<close>.\<close>

definition notSpaceAt :: "char \<Rightarrow> bool" where
  "notSpaceAt c = (\<not> isWhiteSpace c \<and> c \<noteq> CHR ''@'')"

text \<open>\<open>/^[^\s@]+@[^\s@]+\.[^\s@]+$/\<close>\<close>

definition emailRegex :: rexp where
  "emailRegex =
     Seq (Plus (Class notSpaceAt))
       (Seq (Lit CHR ''@'')
         (Seq (Plus (Class notSpaceAt))
           (Seq (Lit CHR ''.'') (Plus (Class notSpaceAt)))))"

section \<open>Values of a request body\<close>

text \<open>
  A field of the parsed JSON body.  \<open>JUndefined\<close> is what destructuring gives for a key
  the body does not have.  Numbers are the integers among the JSON numbers.
\<close>

datatype jsval =
    JUndefined
  | JNull
  | JBool bool
  | JNum int
  | JStr string
  | JArr "jsval list"
  | JObj "(string \<times> jsval) list"

datatype js_error = TypeError string

text \<open>\<open>!v\<close> is \<open>\<not> truthy v\<close>.\<close>

fun truthy :: "jsval \<Rightarrow> bool" where
  "truthy JUndefined = False"
| "truthy JNull = False"
| "truthy (JBool b) = b"
| "truthy (JNum n) = (n \<noteq> 0)"
| "truthy (JStr s) = (s \<noteq> [])"
| "truthy (JArr xs) = True"
| "truthy (JObj kvs) = True"

fun natToString :: "nat \<Rightarrow> string" where
  "natToString n =
     (if n < 10 then [char_of (48 + n)]
      else natToString (n div 10) @ [char_of (48 + n mod 10)])"

text \<open>\<open>Number.prototype.toString\<close> on an integer (below \<open>10 ^ 21\<close> in magnitude, where
  JavaScript still writes all digits).\<close>

definition numberToString :: "int \<Rightarrow> string" where
  "numberToString n = (if n < 0 then CHR ''-'' # natToString (nat (- n)) else natToString (nat n))"

fun joinComma :: "string list \<Rightarrow> string" where
  "joinComma [] = []"
| "joinComma [x] = x"
| "joinComma (x # y # ys) = x @ CHR '','' # joinComma (y # ys)"

text \<open>Collects the results of a list of fallible steps; the first error wins.\<close>

fun sequenceE :: "(js_error + 'a) list \<Rightarrow> js_error + 'a list" where
  "sequenceE [] = Inr []"
| "sequenceE (x # xs) =
     (case x of
        Inl e \<Rightarrow> Inl e
      | Inr v \<Rightarrow> (case sequenceE xs of Inl e \<Rightarrow> Inl e | Inr vs \<Rightarrow> Inr (v # vs)))"

text \<open>
  The abstract operation \<open>ToString\<close>, which \<open>RegExp.prototype.test\<close> applies to its
  argument.  An array is joined with commas, \<open>null\<close> elements giving the empty
  string; a plain object is \<open>[object Object]\<close>, unless the body gave it a key
  \<open>toString\<close>: that value is not callable and the conversion throws.
\<close>

fun toStringJS :: "jsval \<Rightarrow> js_error + string" where
  "toStringJS JUndefined = Inr ''undefined''"
| "toStringJS JNull = Inr ''null''"
| "toStringJS (JBool b) = Inr (if b then ''true'' else ''false'')"
| "toStringJS (JNum n) = Inr (numberToString n)"
| "toStringJS (JStr s) = Inr s"
| "toStringJS (JArr xs) =
     (case sequenceE
        (map (\<lambda>x. if x = JUndefined \<or> x = JNull then Inr [] else toStringJS x) xs) of
        Inl e \<Rightarrow> Inl e
      | Inr ss \<Rightarrow> Inr (joinComma ss))"
| "toStringJS (JObj kvs) =
     (if ''toString'' \<in> set (map fst kvs)
      then Inl (TypeError ''Cannot convert object to primitive value'')
      else Inr ''[object Object]'')"

text \<open>\<open>v.toLowerCase()\<close> and \<open>v.trim()\<close>: string methods, a \<open>TypeError\<close> on any other
  value.\<close>

definition callToLowerCase :: "jsval \<Rightarrow> js_error + string" where
  "callToLowerCase v =
     (case v of
        JStr s \<Rightarrow> Inr (toLowerCase s)
      | _ \<Rightarrow> Inl (TypeError ''email.toLowerCase is not a function''))"

definition callTrim :: "jsval \<Rightarrow> js_error + string" where
  "callTrim v =
     (case v of
        JStr s \<Rightarrow> Inr (trim s)
      | _ \<Rightarrow> Inl (TypeError ''name.trim is not a function''))"

text \<open>\<open>isValidEmail\<close>: \<open>emailRegex.test(email)\<close>.\<close>

definition isValidEmail :: "jsval \<Rightarrow> js_error + bool" where
  "isValidEmail email =
     (case toStringJS email of
        Inl e \<Rightarrow> Inl e
      | Inr s \<Rightarrow> Inr (matches emailRegex s))"

section \<open>The user collection\<close>

text \<open>An instant of the clock, in milliseconds; \<open>toISOString\<close> writes it out.\<close>

type_synonym instant = int

text \<open>A user record.  The field \<open>id\<close> of the source is \<open>id'\<close>.  The records of the
  sample data have no \<open>updatedAt\<close> key.\<close>

record user =
  id' :: int
  name :: string
  email :: string
  createdAt :: instant
  updatedAt :: "instant option"

text \<open>The two module variables \<open>users\<close> and \<open>nextId\<close>.\<close>

record store =
  users :: "user list"
  nextId :: int

text \<open>The sample data; its three \<open>new Date()\<close> are read when the module loads.\<close>

definition initialStore :: "instant \<Rightarrow> instant \<Rightarrow> instant \<Rightarrow> store" where
  "initialStore c1 c2 c3 =
     \<lparr>users =
        [\<lparr>id' = 1, name = ''John Doe'', email = ''john@example.com'',
          createdAt = c1, updatedAt = None\<rparr>,
         \<lparr>id' = 2, name = ''Jane Smith'', email = ''jane@example.com'',
          createdAt = c2, updatedAt = None\<rparr>,
         \<lparr>id' = 3, name = ''Bob Johnson'', email = ''bob@example.com'',
          createdAt = c3, updatedAt = None\<rparr>],
      nextId = 4\<rparr>"

section \<open>Responses\<close>

record pagination =
  currentPage :: int
  totalPages :: int
  totalUsers :: nat
  hasNext :: bool
  hasPrev :: bool

text \<open>The JSON bodies the handlers send, one constructor for each shape.\<close>

datatype body =
    ErrorBody string
  | ValidationBody string "string option" "string option"
  | UserBody user
  | MessageUserBody string user
  | DeletedBody string int string string
  | UsersBody "user list" pagination
  | ErrorDetailsBody string string

record response =
  status :: nat
  body :: body

text \<open>What a handler does with a request: it sends a response, or an exception leaves
  it.\<close>

datatype outcome = Sent response | Threw js_error

definition internalServerError :: response where
  "internalServerError = \<lparr>status = 500, body = ErrorBody ''Internal server error''\<rparr>"

definition invalidUserId :: response where
  "invalidUserId = \<lparr>status = 400, body = ErrorBody ''Invalid user ID format''\<rparr>"

definition userNotFound :: response where
  "userNotFound = \<lparr>status = 404, body = ErrorBody ''User not found''\<rparr>"

definition nameError :: response where
  "nameError =
     \<lparr>status = 400, body = ErrorBody ''Name must be a string with at least 2 characters''\<rparr>"

definition emailError :: response where
  "emailError = \<lparr>status = 400, body = ErrorBody ''Please provide a valid email address''\<rparr>"

section \<open>GET /api/users\<close>

text \<open>
  The parsed query string.  A parameter that is absent is \<open>undefined\<close> and one given
  once is a string; a parameter that is repeated, or written with brackets, reaches
  the handler as an array or an object.
\<close>

record query =
  q_name :: jsval
  q_email :: jsval
  q_page :: jsval
  q_limit :: jsval

text \<open>\<open>v.toLowerCase()\<close> on a query parameter, written \<open>expr\<close> in the source.\<close>

definition toLowerCaseOf :: "string \<Rightarrow> jsval \<Rightarrow> js_error + string" where
  "toLowerCaseOf expr v =
     (case v of
        JStr s \<Rightarrow> Inr (toLowerCase s)
      | _ \<Rightarrow> Inl (TypeError (expr @ ''.toLowerCase is not a function'')))"

text \<open>The two filters.  Each runs when its parameter is truthy, and throws where the
  parameter is no string.\<close>

definition filterUsers :: "query \<Rightarrow> user list \<Rightarrow> js_error + user list" where
  "filterUsers q us =
     (case (if truthy (q_name q) then
              (case toLowerCaseOf ''req.query.name'' (q_name q) of
                 Inl e \<Rightarrow> Inl e
               | Inr nameFilter \<Rightarrow>
                   Inr (filter (\<lambda>u. includesStr (toLowerCase (name u)) nameFilter) us))
            else Inr us) of
        Inl e \<Rightarrow> Inl e
      | Inr filteredUsers \<Rightarrow>
          (if truthy (q_email q) then
             (case toLowerCaseOf ''req.query.email'' (q_email q) of
                Inl e \<Rightarrow> Inl e
              | Inr emailFilter \<Rightarrow>
                  Inr (filter (\<lambda>u. includesStr (toLowerCase (email u)) emailFilter)
                         filteredUsers))
           else Inr filteredUsers))"

text \<open>\<open>parseInt(v)\<close> on a value: \<open>parseInt\<close> of its string.\<close>

definition parseIntOf :: "jsval \<Rightarrow> js_error + int option" where
  "parseIntOf v = (case toStringJS v of Inl e \<Rightarrow> Inl e | Inr s \<Rightarrow> Inr (parseInt s))"

text \<open>\<open>parseInt(v) || d\<close>: the default replaces \<open>NaN\<close> and \<open>0\<close>, nothing else.\<close>

definition orDefault :: "int option \<Rightarrow> int \<Rightarrow> int" where
  "orDefault v d = (case v of None \<Rightarrow> d | Some n \<Rightarrow> if n = 0 then d else n)"

definition pageOf :: "query \<Rightarrow> js_error + int" where
  "pageOf q =
     (case parseIntOf (q_page q) of Inl e \<Rightarrow> Inl e | Inr v \<Rightarrow> Inr (orDefault v 1))"

definition limitOf :: "query \<Rightarrow> js_error + int" where
  "limitOf q =
     (case parseIntOf (q_limit q) of Inl e \<Rightarrow> Inl e | Inr v \<Rightarrow> Inr (orDefault v 10))"

text \<open>\<open>Array.prototype.slice(start, end)\<close>: a negative index counts from the end, and
  both are clamped to the array.\<close>

definition slice :: "'a list \<Rightarrow> int \<Rightarrow> int \<Rightarrow> 'a list" where
  "slice xs start end =
     (let len = int (length xs);
          k = (if start < 0 then max (len + start) 0 else min start len);
          final = (if end < 0 then max (len + end) 0 else min end len)
      in take (nat (final - k)) (drop (nat k) xs))"

text \<open>\<open>Math.ceil(a / b)\<close> for integers, \<open>b\<close> not zero.\<close>

definition ceilDiv :: "int \<Rightarrow> int \<Rightarrow> int" where
  "ceilDiv a b = - ((- a) div b)"

text \<open>The body of the \<open>try\<close> block.\<close>

definition getUsersTry :: "query \<Rightarrow> store \<Rightarrow> (js_error + response) \<times> store" where
  "getUsersTry q s =
     (case filterUsers q (users s) of
        Inl e \<Rightarrow> (Inl e, s)
      | Inr filteredUsers \<Rightarrow>
          (case pageOf q of
             Inl e \<Rightarrow> (Inl e, s)
           | Inr page \<Rightarrow>
               (case limitOf q of
                  Inl e \<Rightarrow> (Inl e, s)
                | Inr limit \<Rightarrow>
                    (let startIndex = (page - 1) * limit;
                         endIndex = startIndex + limit;
                         paginatedUsers = slice filteredUsers startIndex endIndex
                     in (Inr \<lparr>status = 200,
                              body = UsersBody paginatedUsers
                                \<lparr>currentPage = page,
                                 totalPages = ceilDiv (int (length filteredUsers)) limit,
                                 totalUsers = length filteredUsers,
                                 hasNext = (endIndex < int (length filteredUsers)),
                                 hasPrev = (startIndex > 0)\<rparr>\<rparr>, s)))))"

definition getUsers :: "query \<Rightarrow> store \<Rightarrow> outcome \<times> store" where
  "getUsers q s =
     (case getUsersTry q s of
        (Inr r, s') \<Rightarrow> (Sent r, s')
      | (Inl e, s') \<Rightarrow> (Sent internalServerError, s'))"

section \<open>GET /api/users/:id\<close>

definition getUserById :: "string \<Rightarrow> store \<Rightarrow> outcome \<times> store" where
  "getUserById idParam s =
     (case parseInt idParam of
        None \<Rightarrow> (Sent invalidUserId, s)
      | Some userId \<Rightarrow>
          (case find (\<lambda>u. id' u = userId) (users s) of
             None \<Rightarrow> (Sent userNotFound, s)
           | Some u \<Rightarrow> (Sent \<lparr>status = 200, body = UserBody u\<rparr>, s)))"

section \<open>POST /api/users\<close>

text \<open>\<open>typeof name !== 'string' || name.trim().length < 2\<close>\<close>

definition nameInvalid :: "jsval \<Rightarrow> bool" where
  "nameInvalid v = (case v of JStr n \<Rightarrow> length (trim n) < 2 | _ \<Rightarrow> True)"

text \<open>\<open>users.find(u => u.email.toLowerCase() === email.toLowerCase())\<close>: the callback
  runs once for each user until it holds, and throws where \<open>email\<close> is no string.\<close>

fun findByEmail :: "jsval \<Rightarrow> user list \<Rightarrow> js_error + user option" where
  "findByEmail v [] = Inr None"
| "findByEmail v (u # us) =
     (case callToLowerCase v of
        Inl e \<Rightarrow> Inl e
      | Inr l \<Rightarrow> if toLowerCase (email u) = l then Inr (Some u) else findByEmail v us)"

text \<open>The body of the \<open>try\<close> block: the response it sends or the exception it throws,
  and the store it leaves.  \<open>t1\<close> and \<open>t2\<close> are the two readings of the clock.\<close>

definition createUserTry ::
  "jsval \<Rightarrow> jsval \<Rightarrow> instant \<Rightarrow> instant \<Rightarrow> store \<Rightarrow> (js_error + response) \<times> store" where
  "createUserTry nameV emailV t1 t2 s =
     (if \<not> truthy nameV \<or> \<not> truthy emailV then
        (Inr \<lparr>status = 400,
              body = ValidationBody ''Validation failed''
                (if \<not> truthy nameV then Some ''Name is required'' else None)
                (if \<not> truthy emailV then Some ''Email is required'' else None)\<rparr>, s)
      else if nameInvalid nameV then (Inr nameError, s)
      else
        (case isValidEmail emailV of
           Inl e \<Rightarrow> (Inl e, s)
         | Inr False \<Rightarrow> (Inr emailError, s)
         | Inr True \<Rightarrow>
             (case findByEmail emailV (users s) of
                Inl e \<Rightarrow> (Inl e, s)
              | Inr (Some existingUser) \<Rightarrow>
                  (Inr \<lparr>status = 409,
                        body = ErrorBody ''User with this email already exists''\<rparr>, s)
              | Inr None \<Rightarrow>
                  (let newId = nextId s;
                       s = s\<lparr>nextId := nextId s + 1\<rparr>
                   in case callTrim nameV of
                        Inl e \<Rightarrow> (Inl e, s)
                      | Inr n \<Rightarrow>
                          (case callToLowerCase emailV of
                             Inl e \<Rightarrow> (Inl e, s)
                           | Inr l \<Rightarrow>
                               (let newUser =
                                      \<lparr>id' = newId, name = n, email = trim l,
                                       createdAt = t1, updatedAt = Some t2\<rparr>
                                in (Inr \<lparr>status = 201,
                                         body = MessageUserBody
                                           ''User created successfully'' newUser\<rparr>,
                                    s\<lparr>users := users s @ [newUser]\<rparr>)))))))"

definition createUser ::
  "jsval \<Rightarrow> jsval \<Rightarrow> instant \<Rightarrow> instant \<Rightarrow> store \<Rightarrow> outcome \<times> store" where
  "createUser nameV emailV t1 t2 s =
     (case createUserTry nameV emailV t1 t2 s of
        (Inr r, s') \<Rightarrow> (Sent r, s')
      | (Inl e, s') \<Rightarrow> (Sent internalServerError, s'))"

section \<open>PUT /api/users/:id\<close>

text \<open>\<open>Array.prototype.findIndex\<close>, with \<open>None\<close> for \<open>-1\<close>.\<close>

fun findIndex :: "('a \<Rightarrow> bool) \<Rightarrow> 'a list \<Rightarrow> nat option" where
  "findIndex P [] = None"
| "findIndex P (x # xs) =
     (if P x then Some 0 else map_option Suc (findIndex P xs))"

text \<open>\<open>users.find(u => u.email.toLowerCase() === email.toLowerCase() && u.id !== userId)\<close>\<close>

fun findOtherByEmail :: "jsval \<Rightarrow> int \<Rightarrow> user list \<Rightarrow> js_error + user option" where
  "findOtherByEmail v userId [] = Inr None"
| "findOtherByEmail v userId (u # us) =
     (case callToLowerCase v of
        Inl e \<Rightarrow> Inl e
      | Inr l \<Rightarrow>
          if toLowerCase (email u) = l \<and> id' u \<noteq> userId then Inr (Some u)
          else findOtherByEmail v userId us)"

text \<open>The block \<open>if (email !== undefined) { ... }\<close>: the response of an early return,
  if it makes one.\<close>

definition checkEmail :: "jsval \<Rightarrow> int \<Rightarrow> user list \<Rightarrow> js_error + response option" where
  "checkEmail emailV userId us =
     (if emailV \<noteq> JUndefined then
        (case isValidEmail emailV of
           Inl e \<Rightarrow> Inl e
         | Inr False \<Rightarrow> Inr (Some emailError)
         | Inr True \<Rightarrow>
             (case findOtherByEmail emailV userId us of
                Inl e \<Rightarrow> Inl e
              | Inr (Some existingUser) \<Rightarrow>
                  Inr (Some \<lparr>status = 409,
                             body = ErrorBody ''Another user with this email already exists''\<rparr>)
              | Inr None \<Rightarrow> Inr None))
      else Inr None)"

text \<open>\<open>if (name !== undefined) users[userIndex].name = name.trim()\<close>\<close>

definition setName :: "nat \<Rightarrow> jsval \<Rightarrow> store \<Rightarrow> js_error + store" where
  "setName userIndex nameV s =
     (if nameV \<noteq> JUndefined then
        (case callTrim nameV of
           Inl e \<Rightarrow> Inl e
         | Inr n \<Rightarrow> Inr (s\<lparr>users := (users s)[userIndex := (users s ! userIndex)\<lparr>name := n\<rparr>]\<rparr>))
      else Inr s)"

text \<open>\<open>if (email !== undefined) users[userIndex].email = email.toLowerCase().trim()\<close>\<close>

definition setEmail :: "nat \<Rightarrow> jsval \<Rightarrow> store \<Rightarrow> js_error + store" where
  "setEmail userIndex emailV s =
     (if emailV \<noteq> JUndefined then
        (case callToLowerCase emailV of
           Inl e \<Rightarrow> Inl e
         | Inr l \<Rightarrow>
             Inr (s\<lparr>users := (users s)[userIndex := (users s ! userIndex)\<lparr>email := trim l\<rparr>]\<rparr>))
      else Inr s)"

text \<open>\<open>users[userIndex].updatedAt = new Date().toISOString()\<close>\<close>

definition setUpdatedAt :: "nat \<Rightarrow> instant \<Rightarrow> store \<Rightarrow> store" where
  "setUpdatedAt userIndex t s =
     s\<lparr>users := (users s)[userIndex := (users s ! userIndex)\<lparr>updatedAt := Some t\<rparr>]\<rparr>"

definition updateFields ::
  "nat \<Rightarrow> jsval \<Rightarrow> jsval \<Rightarrow> instant \<Rightarrow> store \<Rightarrow> (js_error + response) \<times> store" where
  "updateFields userIndex nameV emailV t s =
     (case setName userIndex nameV s of
        Inl e \<Rightarrow> (Inl e, s)
      | Inr s1 \<Rightarrow>
          (case setEmail userIndex emailV s1 of
             Inl e \<Rightarrow> (Inl e, s1)
           | Inr s2 \<Rightarrow>
               (let s3 = setUpdatedAt userIndex t s2
                in (Inr \<lparr>status = 200,
                         body = MessageUserBody ''User updated successfully''
                                  (users s3 ! userIndex)\<rparr>, s3))))"

text \<open>The body of the \<open>try\<close> block; \<open>t\<close> is the reading of the clock.\<close>

definition updateUserTry ::
  "string \<Rightarrow> jsval \<Rightarrow> jsval \<Rightarrow> instant \<Rightarrow> store \<Rightarrow> (js_error + response) \<times> store" where
  "updateUserTry idParam nameV emailV t s =
     (case parseInt idParam of
        None \<Rightarrow> (Inr invalidUserId, s)
      | Some userId \<Rightarrow>
          (case findIndex (\<lambda>u. id' u = userId) (users s) of
             None \<Rightarrow> (Inr userNotFound, s)
           | Some userIndex \<Rightarrow>
               if nameV \<noteq> JUndefined \<and> nameInvalid nameV then (Inr nameError, s)
               else
                 (case checkEmail emailV userId (users s) of
                    Inl e \<Rightarrow> (Inl e, s)
                  | Inr (Some r) \<Rightarrow> (Inr r, s)
                  | Inr None \<Rightarrow> updateFields userIndex nameV emailV t s)))"

text \<open>The \<open>catch\<close> block calls \<open>res.status.status(500)\<close>.  \<open>res.status\<close> is a function
  and has no property \<open>status\<close>, so the call throws and nothing is sent.\<close>

definition updateUser ::
  "string \<Rightarrow> jsval \<Rightarrow> jsval \<Rightarrow> instant \<Rightarrow> store \<Rightarrow> outcome \<times> store" where
  "updateUser idParam nameV emailV t s =
     (case updateUserTry idParam nameV emailV t s of
        (Inr r, s') \<Rightarrow> (Sent r, s')
      | (Inl e, s') \<Rightarrow> (Threw (TypeError ''res.status.status is not a function''), s'))"

section \<open>DELETE /api/users/:id\<close>

definition deleteUser :: "string \<Rightarrow> store \<Rightarrow> outcome \<times> store" where
  "deleteUser idParam s =
     (case parseInt idParam of
        None \<Rightarrow> (Sent invalidUserId, s)
      | Some userId \<Rightarrow>
          (case findIndex (\<lambda>u. id' u = userId) (users s) of
             None \<Rightarrow> (Sent userNotFound, s)
           | Some userIndex \<Rightarrow>
               (let deletedUser = users s ! userIndex
                in (Sent \<lparr>status = 200,
                          body = DeletedBody ''User deleted successfully''
                            (id' deletedUser) (name deletedUser) (email deletedUser)\<rparr>,
                    s\<lparr>users := take userIndex (users s) @ drop (Suc userIndex) (users s)\<rparr>))))"

section \<open>The application\<close>

text \<open>The requests that read or change the collection, each with the readings of the
  clock its handler takes.\<close>

datatype request =
    GetUsers query
  | GetUserById string
  | CreateUser jsval jsval instant instant
  | UpdateUser string jsval jsval instant
  | DeleteUser string

fun handle :: "request \<Rightarrow> store \<Rightarrow> outcome \<times> store" where
  "handle (GetUsers q) s = getUsers q s"
| "handle (GetUserById i) s = getUserById i s"
| "handle (CreateUser n e t1 t2) s = createUser n e t1 t2 s"
| "handle (UpdateUser i n e t) s = updateUser i n e t s"
| "handle (DeleteUser i) s = deleteUser i s"

text \<open>The global error-handling middleware, which the framework calls with an
  exception that left a handler.  The stack trace it adds outside production is not
  modelled.\<close>

definition errorMiddleware :: "bool \<Rightarrow> js_error \<Rightarrow> response" where
  "errorMiddleware production err =
     (if production then \<lparr>status = 500, body = ErrorBody ''Internal server error''\<rparr>
      else (case err of
              TypeError message \<Rightarrow>
                \<lparr>status = 500, body = ErrorDetailsBody ''Internal server error'' message\<rparr>))"

definition respond :: "bool \<Rightarrow> outcome \<Rightarrow> response" where
  "respond production out =
     (case out of Sent r \<Rightarrow> r | Threw err \<Rightarrow> errorMiddleware production err)"

text \<open>The stores the service can be in: the sample data, and what any handler leaves.\<close>

inductive reachable :: "store \<Rightarrow> bool" where
  init: "reachable (initialStore c1 c2 c3)"
| step: "reachable s \<Longrightarrow> reachable (snd (handle r s))"

section \<open>Histories and invariants\<close>

text \<open>The stores the service has been in, the latest first.\<close>

inductive history :: "store list \<Rightarrow> bool" where
  start: "history [initialStore c1 c2 c3]"
| advance: "history (s # past) \<Longrightarrow> history (snd (handle r s) # s # past)"

text \<open>The invariant of the collection: the ids are distinct and below the counter, and
  no two emails agree once both are lowercased.\<close>

definition wellFormed :: "store \<Rightarrow> bool" where
  "wellFormed s =
     (distinct (map id' (users s)) \<and>
      (\<forall>u \<in> set (users s). id' u < nextId s) \<and>
      distinct (map (\<lambda>u. toLowerCase (email u)) (users s)))"

text \<open>The characters a word of the expression can hold.\<close>

fun occurs :: "rexp \<Rightarrow> char \<Rightarrow> bool" where
  "occurs Zero c = False"
| "occurs One c = False"
| "occurs (Lit d) c = (c = d)"
| "occurs (Class P) c = P c"
| "occurs (Alt r s) c = (occurs r c \<or> occurs s c)"
| "occurs (Seq r s) c = (occurs r c \<or> occurs s c)"
| "occurs (Star r) c = occurs r c"

text \<open>Expressions that match nothing, by their shape.\<close>

fun void :: "rexp \<Rightarrow> bool" where
  "void Zero = True"
| "void (Alt r s) = (void r \<and> void s)"
| "void (Seq r s) = (void r \<or> void s)"
| "void r = False"

section \<open>Strings\<close>

text \<open>Lowercasing twice is lowercasing once, it keeps white space apart from the other
  characters, and trimming does nothing to a string that holds no white space.\<close>

lemma of_char_lowerChar:
  "(of_char (lowerChar c) :: nat) =
     (let n = of_char c
      in if (65 \<le> n \<and> n \<le> 90) \<or> (192 \<le> n \<and> n \<le> 222 \<and> n \<noteq> 215) then n + 32 else n)"
  unfolding lowerChar_def Let_def by simp

lemma lowerChar_idem: "lowerChar (lowerChar c) = lowerChar c"
proof -
  have "(of_char (lowerChar (lowerChar c)) :: nat) = of_char (lowerChar c)"
    unfolding of_char_lowerChar Let_def by auto
  then show ?thesis by simp
qed

lemma isWhiteSpace_lowerChar: "isWhiteSpace (lowerChar c) = isWhiteSpace c"
  unfolding isWhiteSpace_def of_char_lowerChar Let_def by auto

lemma toLowerCase_idem: "toLowerCase (toLowerCase s) = toLowerCase s"
  by (simp add: toLowerCase_def lowerChar_idem)

lemma trim_no_space:
  assumes "\<forall>c \<in> set s. \<not> isWhiteSpace c"
  shows "trim s = s"
proof (cases s rule: rev_cases)
  case Nil
  then show ?thesis by (simp add: trim_def)
next
  case (snoc ys y)
  with assms have a: "\<not> isWhiteSpace y" by simp
  from assms have "dropWhile isWhiteSpace s = s"
    by (cases s) auto
  with snoc a show ?thesis by (simp add: trim_def)
qed

lemma toLowerCase_no_space:
  "\<forall>c \<in> set s. \<not> isWhiteSpace c \<Longrightarrow> \<forall>c \<in> set (toLowerCase s). \<not> isWhiteSpace c"
  by (auto simp: toLowerCase_def isWhiteSpace_lowerChar)

section \<open>Reading back a decimal rendering\<close>

text \<open>\<open>parseInt\<close> reads the decimal rendering of an integer back as that integer.\<close>

declare natToString.simps [simp del]








section \<open>The email pattern\<close>

text \<open>A string that matches an expression holds only characters that occur in the
  expression; so a string that matches the email pattern holds no white space, and it
  is not empty.\<close>

lemma void_not_nullable: "void r \<Longrightarrow> \<not> nullable r"
  by (induction r) auto

lemma void_deriv: "void r \<Longrightarrow> void (deriv c r)"
  by (induction r) (auto simp: void_not_nullable)

lemma void_no_match: "void r \<Longrightarrow> \<not> matches r s"
  by (induction s arbitrary: r) (auto simp: void_not_nullable void_deriv)

lemma deriv_foreign: "\<not> occurs r c \<Longrightarrow> void (deriv c r)"
  by (induction r) auto

lemma occurs_deriv: "occurs (deriv c r) d \<Longrightarrow> occurs r d"
  by (induction r) (auto split: if_splits)

lemma matches_occurs: "matches r s \<Longrightarrow> c \<in> set s \<Longrightarrow> occurs r c"
proof (induction s arbitrary: r)
  case Nil
  then show ?case by simp
next
  case (Cons a s)
  from Cons.prems(1) have m: "matches (deriv a r) s" by simp
  show ?case
  proof (cases "c = a")
    case True
    with m deriv_foreign void_no_match show ?thesis by blast
  next
    case False
    with Cons.prems(2) have "c \<in> set s" by simp
    with Cons.IH m have "occurs (deriv a r) c" by blast
    then show ?thesis by (rule occurs_deriv)
  qed
qed

lemma emailRegex_no_space:
  assumes "matches emailRegex e"
  shows "\<forall>c \<in> set e. \<not> isWhiteSpace c"
proof
  fix c assume "c \<in> set e"
  with assms have "occurs emailRegex c" by (rule matches_occurs)
  then show "\<not> isWhiteSpace c"
    by (auto simp: emailRegex_def Plus_def notSpaceAt_def isWhiteSpace_def)
qed

lemma emailRegex_nonempty: "matches emailRegex e \<Longrightarrow> e \<noteq> []"
  by (auto simp: emailRegex_def Plus_def)

lemma valid_email_stored:
  assumes "matches emailRegex e"
  shows "trim (toLowerCase e) = toLowerCase e"
  by (intro trim_no_space toLowerCase_no_space emailRegex_no_space assms)

section \<open>The handlers, case by case\<close>

text \<open>What the \<open>try\<close> blocks of create and update do, by the checks a request passes:
  either the store stays as it is (in create the counter may have moved), or the
  request was valid and the store changes in the one way the handler writes it.\<close>

lemma findByEmail_JStr:
  "findByEmail (JStr e) us = Inr (find (\<lambda>u. toLowerCase (email u) = toLowerCase e) us)"
  by (induction us) (auto simp: callToLowerCase_def)

lemma findOtherByEmail_JStr:
  "findOtherByEmail (JStr e) i us =
     Inr (find (\<lambda>u. toLowerCase (email u) = toLowerCase e \<and> id' u \<noteq> i) us)"
  by (induction us) (auto simp: callToLowerCase_def)

lemma findIndex_None: "findIndex P xs = None \<longleftrightarrow> (\<forall>x \<in> set xs. \<not> P x)"
  by (induction xs) auto

lemma findIndex_Some:
  "findIndex P xs = Some k \<Longrightarrow> k < length xs \<and> P (xs ! k) \<and> (\<forall>j < k. \<not> P (xs ! j))"
proof (induction xs arbitrary: k)
  case Nil
  then show ?case by simp
next
  case (Cons x xs)
  show ?case
  proof (cases "P x")
    case True
    with Cons.prems show ?thesis by simp
  next
    case False
    with Cons.prems obtain k' where k': "findIndex P xs = Some k'" "k = Suc k'"
      by auto
    from Cons.IH[OF k'(1)] False k'(2) show ?thesis
      by (auto simp: less_Suc_eq_0_disj)
  qed
qed

lemma createUserTry_valid:
  assumes n: "2 \<le> length (trim n)"
    and e: "matches emailRegex e"
    and fresh: "\<forall>u \<in> set (users s). toLowerCase (email u) \<noteq> toLowerCase e"
  shows "createUserTry (JStr n) (JStr e) t1 t2 s =
     (Inr \<lparr>status = 201,
            body = MessageUserBody ''User created successfully''
              \<lparr>id' = nextId s, name = trim n, email = trim (toLowerCase e),
               createdAt = t1, updatedAt = Some t2\<rparr>\<rparr>,
      \<lparr>users = users s @ [\<lparr>id' = nextId s, name = trim n, email = trim (toLowerCase e),
               createdAt = t1, updatedAt = Some t2\<rparr>],
       nextId = nextId s + 1\<rparr>)"
proof -
  from n have n0: "n \<noteq> []" by (auto simp: trim_def)
  from e have e0: "e \<noteq> []" by (rule emailRegex_nonempty)
  from fresh have f: "find (\<lambda>u. toLowerCase (email u) = toLowerCase e) (users s) = None"
    by (simp add: find_None_iff)
  from n n0 e e0 f show ?thesis
    by (simp add: createUserTry_def nameInvalid_def isValidEmail_def
        findByEmail_JStr callTrim_def callToLowerCase_def Let_def)
qed

lemma callToLowerCase_Inr: "callToLowerCase v = Inr l \<longleftrightarrow> (\<exists>e. v = JStr e \<and> l = toLowerCase e)"
  by (cases v) (auto simp: callToLowerCase_def)

lemma callTrim_Inr: "callTrim v = Inr m \<longleftrightarrow> (\<exists>n. v = JStr n \<and> m = trim n)"
  by (cases v) (auto simp: callTrim_def)

lemma isValidEmail_JStr: "isValidEmail (JStr e) = Inr (matches emailRegex e)"
  by (simp add: isValidEmail_def)

lemma findOtherByEmail_nonempty:
  "us \<noteq> [] \<Longrightarrow> findOtherByEmail v i us = Inr r \<Longrightarrow> \<exists>e. v = JStr e"
  by (cases us) (auto simp: callToLowerCase_Inr split: sum.splits)

lemma checkEmail_passed:
  assumes "checkEmail emailV i us = Inr None" "us \<noteq> []"
  shows "emailV = JUndefined \<or>
    (\<exists>e. emailV = JStr e \<and> matches emailRegex e \<and>
      (\<forall>u \<in> set us. toLowerCase (email u) = toLowerCase e \<longrightarrow> id' u = i))"
proof (cases "emailV = JUndefined")
  case True
  then show ?thesis by simp
next
  case False
  with assms(1) have v: "isValidEmail emailV = Inr True"
    and f: "findOtherByEmail emailV i us = Inr None"
    by (auto simp: checkEmail_def split: sum.splits bool.splits option.splits)
  from f assms(2) obtain e where e: "emailV = JStr e"
    using findOtherByEmail_nonempty by blast
  from v e have m: "matches emailRegex e" by (simp add: isValidEmail_JStr)
  from f e have "find (\<lambda>u. toLowerCase (email u) = toLowerCase e \<and> id' u \<noteq> i) us = None"
    by (simp add: findOtherByEmail_JStr)
  then have "\<forall>u \<in> set us. toLowerCase (email u) = toLowerCase e \<longrightarrow> id' u = i"
    by (auto simp: find_None_iff)
  with e m show ?thesis by blast
qed

lemma nameInvalid_iff: "\<not> nameInvalid v \<longleftrightarrow> (\<exists>n. v = JStr n \<and> 2 \<le> length (trim n))"
  by (cases v) (auto simp: nameInvalid_def)

lemma updateFields_ok:
  assumes k: "k < length (users s)"
    and n: "nameV = JUndefined \<or> (\<exists>n. nameV = JStr n)"
    and e: "emailV = JUndefined \<or> (\<exists>e. emailV = JStr e)"
  shows "updateFields k nameV emailV t s =
    (Inr \<lparr>status = 200,
          body = MessageUserBody ''User updated successfully''
            ((users s ! k)
               \<lparr>name := (case nameV of JStr n \<Rightarrow> trim n | _ \<Rightarrow> name (users s ! k)),
                email := (case emailV of JStr e \<Rightarrow> trim (toLowerCase e)
                          | _ \<Rightarrow> email (users s ! k)),
                updatedAt := Some t\<rparr>)\<rparr>,
     s\<lparr>users := (users s)[k :=
            (users s ! k)
               \<lparr>name := (case nameV of JStr n \<Rightarrow> trim n | _ \<Rightarrow> name (users s ! k)),
                email := (case emailV of JStr e \<Rightarrow> trim (toLowerCase e)
                          | _ \<Rightarrow> email (users s ! k)),
                updatedAt := Some t\<rparr>]\<rparr>)"
  using k n e
  by (auto simp: updateFields_def setName_def setEmail_def setUpdatedAt_def callTrim_def
      callToLowerCase_def Let_def)

lemma updateUserTry_cases:
  assumes "updateUserTry idParam nameV emailV t s = (res, s')"
  shows "(s' = s \<and> (\<forall>r. res = Inr r \<longrightarrow> status r \<noteq> 200)) \<or>
    (\<exists>i k. parseInt idParam = Some i \<and> findIndex (\<lambda>u. id' u = i) (users s) = Some k \<and>
       (nameV = JUndefined \<or> (\<exists>n. nameV = JStr n \<and> 2 \<le> length (trim n))) \<and>
       (emailV = JUndefined \<or>
          (\<exists>e. emailV = JStr e \<and> matches emailRegex e \<and>
             (\<forall>u \<in> set (users s). toLowerCase (email u) = toLowerCase e \<longrightarrow> id' u = i))) \<and>
       (res, s') = updateFields k nameV emailV t s)"
proof (cases "parseInt idParam")
  case None
  with assms show ?thesis by (auto simp: updateUserTry_def invalidUserId_def)
next
  case (Some i)
  note i = this
  show ?thesis
  proof (cases "findIndex (\<lambda>u. id' u = i) (users s)")
    case None
    with assms i show ?thesis by (auto simp: updateUserTry_def userNotFound_def)
  next
    case (Some k)
    note k = this
    then have ne: "users s \<noteq> []" by auto
    show ?thesis
    proof (cases "nameV \<noteq> JUndefined \<and> nameInvalid nameV")
      case True
      with assms i k show ?thesis by (auto simp: updateUserTry_def nameError_def)
    next
      case False
      then have nm: "nameV = JUndefined \<or> (\<exists>n. nameV = JStr n \<and> 2 \<le> length (trim n))"
        using nameInvalid_iff by blast
      show ?thesis
      proof (cases "checkEmail emailV i (users s)")
        case (Inl err)
        with assms i k False show ?thesis by (auto simp: updateUserTry_def)
      next
        case (Inr ro)
        show ?thesis
        proof (cases ro)
          case None
          with Inr have c: "checkEmail emailV i (users s) = Inr None" by simp
          from checkEmail_passed[OF c ne] have
            em: "emailV = JUndefined \<or>
              (\<exists>e. emailV = JStr e \<and> matches emailRegex e \<and>
                (\<forall>u \<in> set (users s). toLowerCase (email u) = toLowerCase e \<longrightarrow> id' u = i))" .
          from assms i k False c have "(res, s') = updateFields k nameV emailV t s"
            by (auto simp: updateUserTry_def)
          with i k nm em show ?thesis by blast
        next
          case (Some r)
          with Inr have c: "checkEmail emailV i (users s) = Inr (Some r)" by simp
          then have "status r \<noteq> 200"
            by (auto simp: checkEmail_def emailError_def split: if_splits sum.splits bool.splits option.splits)
          with assms i k False c show ?thesis by (auto simp: updateUserTry_def)
        qed
      qed
    qed
  qed
qed

lemma createUserTry_cases:
  assumes "createUserTry nameV emailV t1 t2 s = (res, s')"
  shows "(users s' = users s \<and> nextId s \<le> nextId s' \<and>
          (\<forall>r. res = Inr r \<longrightarrow> status r \<noteq> 201 \<and> s' = s)) \<or>
    (\<exists>n e. nameV = JStr n \<and> emailV = JStr e \<and> 2 \<le> length (trim n) \<and>
       matches emailRegex e \<and>
       (\<forall>u \<in> set (users s). toLowerCase (email u) \<noteq> toLowerCase e) \<and>
       res = Inr \<lparr>status = 201,
            body = MessageUserBody ''User created successfully''
              \<lparr>id' = nextId s, name = trim n, email = trim (toLowerCase e),
               createdAt = t1, updatedAt = Some t2\<rparr>\<rparr> \<and>
       s' = \<lparr>users = users s @ [\<lparr>id' = nextId s, name = trim n, email = trim (toLowerCase e),
               createdAt = t1, updatedAt = Some t2\<rparr>],
             nextId = nextId s + 1\<rparr>)"
proof (cases "\<not> truthy nameV \<or> \<not> truthy emailV")
  case True
  with assms show ?thesis by (auto simp: createUserTry_def)
next
  case False
  note tr = this
  show ?thesis
  proof (cases "nameInvalid nameV")
    case True
    with assms tr show ?thesis by (auto simp: createUserTry_def nameError_def)
  next
    case False
    then obtain n where n: "nameV = JStr n" "2 \<le> length (trim n)"
      using nameInvalid_iff by blast
    show ?thesis
    proof (cases emailV)
      case (JStr e)
      show ?thesis
      proof (cases "matches emailRegex e")
        case True
        show ?thesis
        proof (cases "find (\<lambda>u. toLowerCase (email u) = toLowerCase e) (users s)")
          case None
          then have fresh: "\<forall>u \<in> set (users s). toLowerCase (email u) \<noteq> toLowerCase e"
            by (auto simp: find_None_iff)
          have "createUserTry (JStr n) (JStr e) t1 t2 s =
     (Inr \<lparr>status = 201,
            body = MessageUserBody ''User created successfully''
              \<lparr>id' = nextId s, name = trim n, email = trim (toLowerCase e),
               createdAt = t1, updatedAt = Some t2\<rparr>\<rparr>,
      \<lparr>users = users s @ [\<lparr>id' = nextId s, name = trim n, email = trim (toLowerCase e),
               createdAt = t1, updatedAt = Some t2\<rparr>],
       nextId = nextId s + 1\<rparr>)"
            using n(2) True fresh by (rule createUserTry_valid)
          with assms n(1) JStr have "res = Inr \<lparr>status = 201,
            body = MessageUserBody ''User created successfully''
              \<lparr>id' = nextId s, name = trim n, email = trim (toLowerCase e),
               createdAt = t1, updatedAt = Some t2\<rparr>\<rparr> \<and>
       s' = \<lparr>users = users s @ [\<lparr>id' = nextId s, name = trim n, email = trim (toLowerCase e),
               createdAt = t1, updatedAt = Some t2\<rparr>],
             nextId = nextId s + 1\<rparr>"
            by simp
          with n JStr True fresh show ?thesis by blast
        next
          case (Some u)
          with assms tr False JStr True show ?thesis
            by (auto simp: createUserTry_def isValidEmail_JStr findByEmail_JStr)
        qed
      next
        case False
        with assms tr \<open>\<not> nameInvalid nameV\<close> JStr show ?thesis
          by (auto simp: createUserTry_def isValidEmail_JStr emailError_def)
      qed
    qed (use assms tr False n in \<open>auto simp: createUserTry_def callToLowerCase_def callTrim_def emailError_def Let_def
          split: sum.splits bool.splits option.splits\<close>)
  qed
qed

section \<open>The invariant\<close>

text \<open>Every handler keeps the invariant, so it holds in every reachable store; the
  counter never decreases, so it stays above every id of every earlier store.\<close>

lemma distinct_remove_nth:
  "distinct xs \<Longrightarrow> distinct (take k xs @ drop (Suc k) xs)"
proof (induction xs arbitrary: k)
  case Nil
  then show ?case by simp
next
  case (Cons x xs)
  then show ?case
    by (cases k) (auto dest: in_set_takeD in_set_dropD)
qed

lemma wellFormed_initial: "wellFormed (initialStore c1 c2 c3)"
  by (simp add: wellFormed_def initialStore_def toLowerCase_def lowerChar_def)

lemma wellFormed_create:
  assumes wf: "wellFormed s"
    and e: "matches emailRegex e"
    and fresh: "\<forall>u \<in> set (users s). toLowerCase (email u) \<noteq> toLowerCase e"
  shows "wellFormed \<lparr>users = users s @ [\<lparr>id' = nextId s, name = n, email = trim (toLowerCase e),
               createdAt = t1, updatedAt = t2\<rparr>], nextId = nextId s + 1\<rparr>"
proof -
  from e have "toLowerCase (trim (toLowerCase e)) = toLowerCase e"
    by (simp add: valid_email_stored toLowerCase_idem)
  with wf fresh show ?thesis
    by (fastforce simp: wellFormed_def)
qed

lemma wellFormed_update:
  assumes wf: "wellFormed s"
    and k: "k < length (users s)"
    and same_id: "id' new = id' (users s ! k)"
    and em: "toLowerCase (email new) = toLowerCase (email (users s ! k)) \<or>
       (\<forall>u \<in> set (users s). toLowerCase (email u) = toLowerCase (email new)
            \<longrightarrow> id' u = id' (users s ! k))"
  shows "wellFormed (s\<lparr>users := (users s)[k := new]\<rparr>)"
proof -
  let ?us = "users s"
  let ?f = "\<lambda>u. toLowerCase (email u)"
  from wf have di: "distinct (map id' ?us)" and lt: "\<forall>u \<in> set ?us. id' u < nextId s"
    and de: "distinct (map ?f ?us)"
    by (simp_all add: wellFormed_def)
  from same_id k have ids: "map id' (?us[k := new]) = map id' ?us"
    by (simp add: map_update list_update_same_conv)
  have "set (?us[k := new]) \<subseteq> insert new (set ?us)"
    by (rule set_update_subset_insert)
  moreover from lt k same_id have "id' new < nextId s" by simp
  ultimately have lt': "\<forall>u \<in> set (?us[k := new]). id' u < nextId s"
    using lt by auto
  have "?f new \<notin> set (map ?f ?us) - {map ?f ?us ! k}"
  proof
    assume a: "?f new \<in> set (map ?f ?us) - {map ?f ?us ! k}"
    then obtain u where u: "u \<in> set ?us" "?f u = ?f new" by auto
    from a k have neq: "?f new \<noteq> ?f (?us ! k)" by simp
    with em u have "id' u = id' (?us ! k)" by auto
    moreover from u(1) obtain j where j: "j < length ?us" "?us ! j = u"
      by (auto simp: in_set_conv_nth)
    ultimately have "map id' ?us ! j = map id' ?us ! k" using k by simp
    moreover from di have "(map id' ?us ! j = map id' ?us ! k) = (j = k)"
      by (rule nth_eq_iff_index_eq) (simp_all add: j k)
    ultimately have "j = k" by simp
    with j u neq show False by simp
  qed
  with de have "distinct ((map ?f ?us)[k := ?f new])" by (rule distinct_list_update)
  then have "distinct (map ?f (?us[k := new]))" by (simp add: map_update)
  with di ids lt' show ?thesis by (simp add: wellFormed_def)
qed

lemma wellFormed_delete:
  assumes wf: "wellFormed s"
  shows "wellFormed (s\<lparr>users := take k (users s) @ drop (Suc k) (users s)\<rparr>)"
proof -
  from wf have "distinct (map id' (users s))"
    and "distinct (map (\<lambda>u. toLowerCase (email u)) (users s))"
    by (simp_all add: wellFormed_def)
  then have "distinct (take k (map id' (users s)) @ drop (Suc k) (map id' (users s)))"
    and "distinct (take k (map (\<lambda>u. toLowerCase (email u)) (users s)) @
           drop (Suc k) (map (\<lambda>u. toLowerCase (email u)) (users s)))"
    by (simp_all only: distinct_remove_nth)
  then have "distinct (map id' (take k (users s) @ drop (Suc k) (users s)))"
    and "distinct (map (\<lambda>u. toLowerCase (email u)) (take k (users s) @ drop (Suc k) (users s)))"
    by (simp_all only: map_append take_map drop_map)
  moreover from wf have
    "\<forall>u \<in> set (take k (users s) @ drop (Suc k) (users s)). id' u < nextId s"
    by (auto simp: wellFormed_def dest: in_set_takeD in_set_dropD)
  ultimately show ?thesis
    by (simp only: wellFormed_def store.simps) simp
qed

lemma snd_getUsers: "snd (getUsers q s) = s"
  by (simp add: getUsers_def getUsersTry_def Let_def split: sum.splits prod.splits)

lemma snd_createUser: "snd (createUser n e t1 t2 s) = snd (createUserTry n e t1 t2 s)"
  by (simp add: createUser_def split: prod.splits sum.splits)

lemma snd_updateUser: "snd (updateUser i n e t s) = snd (updateUserTry i n e t s)"
  by (simp add: updateUser_def split: prod.splits sum.splits)

lemma wellFormed_createUserTry:
  assumes "wellFormed s"
  shows "wellFormed (snd (createUserTry nameV emailV t1 t2 s))"
proof -
  obtain res s' where r: "createUserTry nameV emailV t1 t2 s = (res, s')"
    by (cases "createUserTry nameV emailV t1 t2 s")
  from createUserTry_cases[OF r] show ?thesis
  proof
    assume "users s' = users s \<and> nextId s \<le> nextId s' \<and>
          (\<forall>r. res = Inr r \<longrightarrow> status r \<noteq> 201 \<and> s' = s)"
    with assms r show ?thesis by (fastforce simp: wellFormed_def)
  next
    assume "\<exists>n e. nameV = JStr n \<and> emailV = JStr e \<and> 2 \<le> length (trim n) \<and>
       matches emailRegex e \<and>
       (\<forall>u \<in> set (users s). toLowerCase (email u) \<noteq> toLowerCase e) \<and>
       res = Inr \<lparr>status = 201,
            body = MessageUserBody ''User created successfully''
              \<lparr>id' = nextId s, name = trim n, email = trim (toLowerCase e),
               createdAt = t1, updatedAt = Some t2\<rparr>\<rparr> \<and>
       s' = \<lparr>users = users s @ [\<lparr>id' = nextId s, name = trim n, email = trim (toLowerCase e),
               createdAt = t1, updatedAt = Some t2\<rparr>],
             nextId = nextId s + 1\<rparr>"
    with assms r show ?thesis by (auto intro: wellFormed_create)
  qed
qed

lemma updateUserTry_changed:
  assumes r: "updateUserTry idParam nameV emailV t s = (res, s')" and ch: "s' \<noteq> s \<or> (\<exists>r. res = Inr r \<and> status r = 200)"
  obtains i k where "parseInt idParam = Some i"
    and "findIndex (\<lambda>u. id' u = i) (users s) = Some k"
    and "k < length (users s)" and "id' (users s ! k) = i"
    and "nameV = JUndefined \<or> (\<exists>n. nameV = JStr n \<and> 2 \<le> length (trim n))"
    and "emailV = JUndefined \<or>
          (\<exists>e. emailV = JStr e \<and> matches emailRegex e \<and>
             (\<forall>u \<in> set (users s). toLowerCase (email u) = toLowerCase e \<longrightarrow> id' u = i))"
    and "res = Inr \<lparr>status = 200,
          body = MessageUserBody ''User updated successfully''
            ((users s ! k)
               \<lparr>name := (case nameV of JStr n \<Rightarrow> trim n | _ \<Rightarrow> name (users s ! k)),
                email := (case emailV of JStr e \<Rightarrow> trim (toLowerCase e)
                          | _ \<Rightarrow> email (users s ! k)),
                updatedAt := Some t\<rparr>)\<rparr>"
    and "s' = s\<lparr>users := (users s)[k :=
            (users s ! k)
               \<lparr>name := (case nameV of JStr n \<Rightarrow> trim n | _ \<Rightarrow> name (users s ! k)),
                email := (case emailV of JStr e \<Rightarrow> trim (toLowerCase e)
                          | _ \<Rightarrow> email (users s ! k)),
                updatedAt := Some t\<rparr>]\<rparr>"
proof -
  from updateUserTry_cases[OF r] ch obtain i k where
    i: "parseInt idParam = Some i" and k: "findIndex (\<lambda>u. id' u = i) (users s) = Some k"
    and n: "nameV = JUndefined \<or> (\<exists>n. nameV = JStr n \<and> 2 \<le> length (trim n))"
    and e: "emailV = JUndefined \<or>
          (\<exists>e. emailV = JStr e \<and> matches emailRegex e \<and>
             (\<forall>u \<in> set (users s). toLowerCase (email u) = toLowerCase e \<longrightarrow> id' u = i))"
    and u: "(res, s') = updateFields k nameV emailV t s"
    by blast
  from findIndex_Some[OF k] have kl: "k < length (users s)" and ki: "id' (users s ! k) = i"
    by simp_all
  from n have n': "nameV = JUndefined \<or> (\<exists>n. nameV = JStr n)" by blast
  from e have e': "emailV = JUndefined \<or> (\<exists>e. emailV = JStr e)" by blast
  from u updateFields_ok[OF kl n' e', of t] have
    "res = Inr \<lparr>status = 200,
          body = MessageUserBody ''User updated successfully''
            ((users s ! k)
               \<lparr>name := (case nameV of JStr n \<Rightarrow> trim n | _ \<Rightarrow> name (users s ! k)),
                email := (case emailV of JStr e \<Rightarrow> trim (toLowerCase e)
                          | _ \<Rightarrow> email (users s ! k)),
                updatedAt := Some t\<rparr>)\<rparr>"
    and "s' = s\<lparr>users := (users s)[k :=
            (users s ! k)
               \<lparr>name := (case nameV of JStr n \<Rightarrow> trim n | _ \<Rightarrow> name (users s ! k)),
                email := (case emailV of JStr e \<Rightarrow> trim (toLowerCase e)
                          | _ \<Rightarrow> email (users s ! k)),
                updatedAt := Some t\<rparr>]\<rparr>"
    by simp_all
  with i k kl ki n e that show ?thesis by blast
qed

lemma wellFormed_updateUserTry:
  assumes wf: "wellFormed s"
  shows "wellFormed (snd (updateUserTry idParam nameV emailV t s))"
proof -
  obtain res s' where r: "updateUserTry idParam nameV emailV t s = (res, s')"
    by (cases "updateUserTry idParam nameV emailV t s")
  show ?thesis
  proof (cases "s' = s")
    case True
    with wf r show ?thesis by simp
  next
    case False
    then have "s' \<noteq> s \<or> (\<exists>r. res = Inr r \<and> status r = 200)" by simp
    with r obtain i k where k: "k < length (users s)" and ki: "id' (users s ! k) = i"
      and e: "emailV = JUndefined \<or>
          (\<exists>e. emailV = JStr e \<and> matches emailRegex e \<and>
             (\<forall>u \<in> set (users s). toLowerCase (email u) = toLowerCase e \<longrightarrow> id' u = i))"
      and s': "s' = s\<lparr>users := (users s)[k :=
            (users s ! k)
               \<lparr>name := (case nameV of JStr n \<Rightarrow> trim n | _ \<Rightarrow> name (users s ! k)),
                email := (case emailV of JStr e \<Rightarrow> trim (toLowerCase e)
                          | _ \<Rightarrow> email (users s ! k)),
                updatedAt := Some t\<rparr>]\<rparr>"
      by (rule updateUserTry_changed)
    have "wellFormed s'"
      unfolding s'
    proof (rule wellFormed_update[OF wf k])
      from e ki show "toLowerCase (email ((users s ! k)
               \<lparr>name := (case nameV of JStr n \<Rightarrow> trim n | _ \<Rightarrow> name (users s ! k)),
                email := (case emailV of JStr e \<Rightarrow> trim (toLowerCase e)
                          | _ \<Rightarrow> email (users s ! k)),
                updatedAt := Some t\<rparr>)) = toLowerCase (email (users s ! k)) \<or>
       (\<forall>u \<in> set (users s). toLowerCase (email u) = toLowerCase (email ((users s ! k)
               \<lparr>name := (case nameV of JStr n \<Rightarrow> trim n | _ \<Rightarrow> name (users s ! k)),
                email := (case emailV of JStr e \<Rightarrow> trim (toLowerCase e)
                          | _ \<Rightarrow> email (users s ! k)),
                updatedAt := Some t\<rparr>))
            \<longrightarrow> id' u = id' (users s ! k))"
        by (auto simp: valid_email_stored toLowerCase_idem)
    qed simp
    with r show ?thesis by simp
  qed
qed

lemma wellFormed_step:
  assumes wf: "wellFormed s"
  shows "wellFormed (snd (handle r s))"
proof (cases r)
  case (GetUsers q)
  with wf show ?thesis by (simp add: snd_getUsers)
next
  case (GetUserById i)
  with wf show ?thesis by (simp add: getUserById_def split: option.splits)
next
  case (CreateUser n e t1 t2)
  with wf show ?thesis by (simp add: snd_createUser wellFormed_createUserTry)
next
  case (UpdateUser i n e t)
  with wf show ?thesis by (simp add: snd_updateUser wellFormed_updateUserTry)
next
  case (DeleteUser i)
  with wf show ?thesis
    by (auto simp: deleteUser_def Let_def wellFormed_delete split: option.splits)
qed

lemma reachable_wellFormed: "reachable s \<Longrightarrow> wellFormed s"
  by (induction rule: reachable.induct) (simp_all add: wellFormed_initial wellFormed_step)

lemma nextId_step: "nextId s \<le> nextId (snd (handle r s))"
proof (cases r)
  case (GetUsers q)
  then show ?thesis by (simp add: snd_getUsers)
next
  case (GetUserById i)
  then show ?thesis by (simp add: getUserById_def split: option.splits)
next
  case (CreateUser n e t1 t2)
  obtain res s' where r: "createUserTry n e t1 t2 s = (res, s')"
    by (cases "createUserTry n e t1 t2 s")
  from createUserTry_cases[OF r] have "nextId s \<le> nextId s'" by auto
  with CreateUser r show ?thesis by (simp add: snd_createUser)
next
  case (UpdateUser i n e t)
  obtain res s' where r: "updateUserTry i n e t s = (res, s')"
    by (cases "updateUserTry i n e t s")
  have "nextId s' = nextId s"
  proof (cases "s' = s")
    case False
    then have "s' \<noteq> s \<or> (\<exists>r. res = Inr r \<and> status r = 200)" by simp
    with r show ?thesis by (rule updateUserTry_changed) simp
  qed simp
  with UpdateUser r show ?thesis by (simp add: snd_updateUser)
next
  case (DeleteUser i)
  then show ?thesis by (simp add: deleteUser_def Let_def split: option.splits)
qed

lemma history_reachable: "history h \<Longrightarrow> \<forall>s \<in> set h. reachable s"
  by (induction rule: history.induct) (auto intro: reachable.intros)

lemma history_ids:
  "history h \<Longrightarrow> h \<noteq> [] \<and> (\<forall>s0 \<in> set h. \<forall>u \<in> set (users s0). id' u < nextId (hd h))"
proof (induction rule: history.induct)
  case (start c1 c2 c3)
  then show ?case by (simp add: initialStore_def)
next
  case (advance s past r)
  let ?s' = "snd (handle r s)"
  from advance.hyps have "reachable s" by (auto dest: history_reachable)
  then have "wellFormed ?s'" by (intro wellFormed_step reachable_wellFormed)
  then have new: "\<forall>u \<in> set (users ?s'). id' u < nextId ?s'" by (simp add: wellFormed_def)
  from advance.IH nextId_step[of s r]
  have "\<forall>s0 \<in> set (s # past). \<forall>u \<in> set (users s0). id' u < nextId ?s'"
    by fastforce
  with new show ?case by simp
qed

section \<open>Evaluation at concrete requests\<close>

text \<open>The equations that evaluate the handlers on the requests of the examples.\<close>

lemma char_eq_char_of: "(c = char_of (n :: nat)) = (take_bit 8 n = of_char c)"
  unfolding char_of_eq_iff[symmetric] by auto

lemmas parse_simps = parseInt_def parseIntOf_def isWhiteSpace_def isRadixDigit_def
  digitValue_def radixValue_def

lemmas string_simps = trim_def toLowerCase_def lowerChar_def char_of_eq_iff char_eq_char_of
  isWhiteSpace_def

lemmas email_simps = isValidEmail_def emailRegex_def Plus_def notSpaceAt_def isWhiteSpace_def

lemmas response_simps = invalidUserId_def userNotFound_def nameError_def emailError_def
  internalServerError_def

lemmas update_simps = updateUser_def updateUserTry_def checkEmail_def updateFields_def
  setName_def setEmail_def setUpdatedAt_def nameInvalid_def callTrim_def callToLowerCase_def

lemmas create_simps = createUser_def createUserTry_def nameInvalid_def callTrim_def
  callToLowerCase_def

section \<open>The claims\<close>

text \<open>
  Claim C1: a path id that is not a base-10 integer is answered with 400
  \<open>Invalid user ID format\<close> by the get, update and delete handlers, never with 404 and
  never as the user whose id is a prefix of the string.

  The handlers do not do this.  \<open>parseInt\<close> reads the leading integer and drops the rest,
  so on the sample data \<open>2abc\<close> is served as user 2 by get and delete, \<open>1.5\<close> is
  updated as user 1, and \<open>9abc\<close> is answered with 404.
\<close>

theorem id_with_integer_prefix_accepted:
  "fst (getUserById ''2abc'' (initialStore c1 c2 c3)) =
     Sent \<lparr>status = 200,
           body = UserBody \<lparr>id' = 2, name = ''Jane Smith'', email = ''jane@example.com'',
                            createdAt = c2, updatedAt = None\<rparr>\<rparr>
   \<and> fst (getUserById ''9abc'' (initialStore c1 c2 c3)) = Sent userNotFound
   \<and> fst (updateUser ''1.5'' (JStr ''Renamed'') JUndefined t (initialStore c1 c2 c3)) =
     Sent \<lparr>status = 200,
           body = MessageUserBody ''User updated successfully''
                    \<lparr>id' = 1, name = ''Renamed'', email = ''john@example.com'',
                     createdAt = c1, updatedAt = Some t\<rparr>\<rparr>
   \<and> fst (deleteUser ''2abc'' (initialStore c1 c2 c3)) =
     Sent \<lparr>status = 200,
           body = DeletedBody ''User deleted successfully'' 2 ''Jane Smith''
                    ''jane@example.com''\<rparr>"
  by (simp add: getUserById_def deleteUser_def update_simps initialStore_def parse_simps
      response_simps trim_def)




text \<open>
  Claim C3: for any \<open>page\<close> and \<open>limit\<close> the returned slice has at most \<open>limit\<close>
  users, is the filtered sequence between \<open>startIndex\<close> and \<open>endIndex\<close> clamped to its
  bounds, and \<open>hasNext\<close> holds exactly when there are users at \<open>startIndex + limit\<close> or
  beyond.

  Counterexample to C3: with \<open>limit=-1\<close> on the sample data the effective limit is
  \<open>-1\<close> and the response holds two users, since \<open>slice(0, -1)\<close> drops the last
  element only; on an empty collection \<open>hasNext\<close> is true with no user at all.
\<close>

theorem negative_limit_counterexample:
  "limitOf \<lparr>q_name = JUndefined, q_email = JUndefined, q_page = JUndefined,
            q_limit = JStr ''-1''\<rparr> = Inr (- 1)
   \<and> fst (getUsers \<lparr>q_name = JUndefined, q_email = JUndefined, q_page = JUndefined,
                    q_limit = JStr ''-1''\<rparr> (initialStore 0 0 0)) =
     Sent \<lparr>status = 200,
           body = UsersBody
             [\<lparr>id' = 1, name = ''John Doe'', email = ''john@example.com'',
               createdAt = 0, updatedAt = None\<rparr>,
              \<lparr>id' = 2, name = ''Jane Smith'', email = ''jane@example.com'',
               createdAt = 0, updatedAt = None\<rparr>]
             \<lparr>currentPage = 1, totalPages = - 3, totalUsers = 3, hasNext = True,
              hasPrev = False\<rparr>\<rparr>
   \<and> fst (getUsers \<lparr>q_name = JUndefined, q_email = JUndefined, q_page = JUndefined,
                    q_limit = JStr ''-1''\<rparr> \<lparr>users = [], nextId = 4\<rparr>) =
     Sent \<lparr>status = 200,
           body = UsersBody []
             \<lparr>currentPage = 1, totalPages = 0, totalUsers = 0, hasNext = True,
              hasPrev = False\<rparr>\<rparr>"
  by (simp add: getUsers_def getUsersTry_def filterUsers_def pageOf_def limitOf_def
      orDefault_def parse_simps slice_def ceilDiv_def initialStore_def)

text \<open>
  Claim C3, amended: take a list request whose filters do not throw, whose effective
  page and effective limit are both at least 1, and for which \<open>page * limit\<close> is at most
  \<open>2 ^ 53\<close>, so that every index the handler computes is an exact number.  Then the
  response is a 200, the returned slice has at most \<open>limit\<close> users, it is the filtered
  sequence from \<open>startIndex = (page - 1) * limit\<close> up to \<open>startIndex + limit\<close> cut at
  the end of the sequence (empty when the page lies beyond it), and \<open>hasNext\<close> holds
  exactly when the filtered sequence has a user at a position \<open>startIndex + limit\<close> or
  beyond.
\<close>

theorem pagination_positive:
  assumes f: "filterUsers q (users s) = Inr f"
    and pq: "pageOf q = Inr p" and lq: "limitOf q = Inr l"
    and p: "1 \<le> p" and l: "1 \<le> l" and bound: "p * l \<le> 2 ^ 53"
  shows "\<exists>us pg.
     getUsers q s = (Sent \<lparr>status = 200, body = UsersBody us pg\<rparr>, s) \<and>
     us = take (nat l) (drop (nat ((p - 1) * l)) f) \<and>
     int (length us) \<le> l \<and>
     length us = min (nat l) (length f - nat ((p - 1) * l)) \<and>
     (\<forall>i < length us. us ! i = f ! (nat ((p - 1) * l) + i)) \<and>
     (length f \<le> nat ((p - 1) * l) \<longrightarrow> us = []) \<and>
     (hasNext pg \<longleftrightarrow> (\<exists>i. nat ((p - 1) * l + l) \<le> i \<and> i < length f))"
proof -
  let ?start = "(p - 1) * l"
  from p l have s0: "0 \<le> ?start" by simp
  with l have e0: "0 \<le> ?start + l" by simp
  have sl: "slice f ?start (?start + l) = take (nat l) (drop (nat ?start) f)"
  proof (cases "?start + l \<le> int (length f)")
    case True
    with s0 l show ?thesis by (simp add: slice_def Let_def min_def)
  next
    case False
    with s0 l show ?thesis by (auto simp: slice_def Let_def min_def)
  qed
  have hn: "(?start + l < int (length f)) \<longleftrightarrow> (\<exists>i. nat (?start + l) \<le> i \<and> i < length f)"
  proof
    assume "?start + l < int (length f)"
    with e0 have "nat (?start + l) < length f" by linarith
    then show "\<exists>i. nat (?start + l) \<le> i \<and> i < length f" by blast
  next
    assume "\<exists>i. nat (?start + l) \<le> i \<and> i < length f"
    then have "nat (?start + l) < length f" by auto
    with e0 show "?start + l < int (length f)" by linarith
  qed
  from l have len: "int (length (take (nat l) (drop (nat ?start) f))) \<le> l"
    by simp
  have g: "getUsers q s =
     (Sent \<lparr>status = 200,
            body = UsersBody (take (nat l) (drop (nat ?start) f))
              \<lparr>currentPage = p,
               totalPages = ceilDiv (int (length f)) l,
               totalUsers = length f,
               hasNext = (\<exists>i. nat (?start + l) \<le> i \<and> i < length f),
               hasPrev = (?start > 0)\<rparr>\<rparr>, s)"
    using f pq lq by (simp add: getUsers_def getUsersTry_def Let_def sl hn)
  show ?thesis
    unfolding g using len by (auto simp: min_def)
qed

text \<open>Witness for C3, amended: \<open>page=2&limit=2\<close> on the sample data gives the third
  user alone, with no next page.\<close>

theorem pagination_positive_witness:
  "fst (getUsers \<lparr>q_name = JUndefined, q_email = JUndefined, q_page = JStr ''2'',
                  q_limit = JStr ''2''\<rparr> (initialStore 0 0 0)) =
     Sent \<lparr>status = 200,
           body = UsersBody
             [\<lparr>id' = 3, name = ''Bob Johnson'', email = ''bob@example.com'',
               createdAt = 0, updatedAt = None\<rparr>]
             \<lparr>currentPage = 2, totalPages = 2, totalUsers = 3, hasNext = False,
              hasPrev = True\<rparr>\<rparr>"
proof -
  let ?q = "\<lparr>q_name = JUndefined, q_email = JUndefined, q_page = JStr ''2'',
             q_limit = JStr ''2''\<rparr>"
  have f: "filterUsers ?q (users (initialStore 0 0 0)) = Inr (users (initialStore 0 0 0))"
    by (simp add: filterUsers_def)
  have pq: "pageOf ?q = Inr 2" and lq: "limitOf ?q = Inr 2"
    by (simp_all add: pageOf_def limitOf_def orDefault_def parse_simps)
  have p: "(1::int) \<le> 2" and b: "(2::int) * 2 \<le> 2 ^ 53" by simp_all
  from pagination_positive[OF f pq lq p p b]
  show ?thesis
    by (simp add: getUsers_def getUsersTry_def filterUsers_def pageOf_def limitOf_def
        orDefault_def parse_simps slice_def ceilDiv_def initialStore_def)
qed

text \<open>
  Claim C4: a create request whose name is a string of trimmed length at least 2 and
  whose email matches the pattern and agrees, case-insensitively, with no stored email,
  is answered with 201 and a record whose \<open>createdAt\<close> and \<open>updatedAt\<close> are both the
  creation instant.

  Counterexample to C4: the handler reads the clock once for \<open>createdAt\<close> and once
  more for \<open>updatedAt\<close>.  When the clock moves from 1005 to 1006 between the two
  readings, the record has \<open>createdAt\<close> 1005 and \<open>updatedAt\<close> 1006, so the two fields
  are not one instant.
\<close>

theorem create_reads_clock_twice:
  "fst (createUser (JStr ''Test User'') (JStr ''test@example.com'') 1005 1006
         (initialStore 0 0 0)) =
     Sent \<lparr>status = 201,
           body = MessageUserBody ''User created successfully''
             \<lparr>id' = 4, name = ''Test User'', email = ''test@example.com'',
              createdAt = 1005, updatedAt = Some 1006\<rparr>\<rparr>
   \<and> Some (1005 :: instant) \<noteq> Some 1006"
  by (simp add: create_simps email_simps string_simps initialStore_def Let_def)

text \<open>
  Claim C4, amended: a create request whose name is a string of trimmed length at
  least 2 and whose email matches the pattern and agrees, case-insensitively, with no
  stored email, is answered with 201 and the new record.  The record's email is the
  input lowercased and trimmed, its id is the value of the counter, which no user of
  an earlier store ever had, and the record is appended at the end of the collection.
  Its \<open>createdAt\<close> is the reading of the clock taken when that field is built, and its
  \<open>updatedAt\<close> is a second reading of the clock taken right after; the two are the
  same instant only when the clock has not moved in between.
\<close>

theorem create_valid_user:
  assumes h: "history (s # past)"
    and n: "2 \<le> length (trim n)"
    and e: "isValidEmail (JStr e) = Inr True"
    and fresh: "\<forall>u \<in> set (users s). toLowerCase (email u) \<noteq> toLowerCase e"
  shows "createUser (JStr n) (JStr e) t1 t2 s =
     (Sent \<lparr>status = 201,
            body = MessageUserBody ''User created successfully''
              \<lparr>id' = nextId s, name = trim n, email = trim (toLowerCase e),
               createdAt = t1, updatedAt = Some t2\<rparr>\<rparr>,
      \<lparr>users = users s @ [\<lparr>id' = nextId s, name = trim n, email = trim (toLowerCase e),
               createdAt = t1, updatedAt = Some t2\<rparr>],
       nextId = nextId s + 1\<rparr>)
    \<and> trim (toLowerCase e) = toLowerCase (trim e)
    \<and> (\<forall>s0 \<in> set (s # past). \<forall>u \<in> set (users s0). id' u \<noteq> nextId s)"
proof -
  from e have m: "matches emailRegex e" by (simp add: isValidEmail_JStr)
  from createUserTry_valid[OF n m fresh, of t1 t2]
  have c: "createUser (JStr n) (JStr e) t1 t2 s =
     (Sent \<lparr>status = 201,
            body = MessageUserBody ''User created successfully''
              \<lparr>id' = nextId s, name = trim n, email = trim (toLowerCase e),
               createdAt = t1, updatedAt = Some t2\<rparr>\<rparr>,
      \<lparr>users = users s @ [\<lparr>id' = nextId s, name = trim n, email = trim (toLowerCase e),
               createdAt = t1, updatedAt = Some t2\<rparr>],
       nextId = nextId s + 1\<rparr>)"
    by (simp add: createUser_def)
  from m have "trim e = e" by (intro trim_no_space emailRegex_no_space)
  with m have t: "trim (toLowerCase e) = toLowerCase (trim e)"
    by (simp add: valid_email_stored)
  from history_ids[OF h]
  have "\<forall>s0 \<in> set (s # past). \<forall>u \<in> set (users s0). id' u \<noteq> nextId s"
    by fastforce
  with c t show ?thesis by blast
qed

text \<open>Witness for C4: creating \<open>Test User\<close> on the sample data.\<close>

theorem create_valid_user_witness:
  "createUser (JStr '' Test User '') (JStr ''Test@Example.COM'') 5 6 (initialStore 0 0 0) =
     (Sent \<lparr>status = 201,
            body = MessageUserBody ''User created successfully''
              \<lparr>id' = 4, name = ''Test User'', email = ''test@example.com'',
               createdAt = 5, updatedAt = Some 6\<rparr>\<rparr>,
      \<lparr>users = users (initialStore 0 0 0) @
         [\<lparr>id' = 4, name = ''Test User'', email = ''test@example.com'',
               createdAt = 5, updatedAt = Some 6\<rparr>],
       nextId = 5\<rparr>)"
proof -
  have h: "history [initialStore 0 0 0]" by (rule history.start)
  have n: "2 \<le> length (trim '' Test User '')" by (simp add: string_simps)
  have e: "isValidEmail (JStr ''Test@Example.COM'') = Inr True" by (simp add: email_simps)
  have f: "\<forall>u \<in> set (users (initialStore 0 0 0)).
      toLowerCase (email u) \<noteq> toLowerCase ''Test@Example.COM''"
    by (simp add: initialStore_def string_simps)
  have l: "toLowerCase ''Test@Example.COM'' = ''test@example.com''"
    by (simp add: string_simps)
  have t: "trim '' Test User '' = ''Test User''" "trim ''test@example.com'' = ''test@example.com''"
    by (simp_all add: string_simps)
  from create_valid_user[OF h n e f, of 5 6] show ?thesis
    by (simp add: l t initialStore_def)
qed

text \<open>
  Claim C5: in every store reachable from the sample data no two users have emails
  that are equal when compared case-insensitively.  A create request whose email agrees
  with a stored one is never answered with 201 and leaves the store as it is, and is
  answered with 409 once name and email have passed validation; an update whose new
  email is held by a user other than the target is answered with 409.
\<close>

theorem email_unique:
  "(reachable s \<longrightarrow> distinct (map (\<lambda>u. toLowerCase (email u)) (users s))) \<and>
   (\<forall>nameV e t1 t2.
      (\<exists>u \<in> set (users s). toLowerCase (email u) = toLowerCase e) \<longrightarrow>
        (\<forall>r. fst (createUser nameV (JStr e) t1 t2 s) = Sent r \<longrightarrow> status r \<noteq> 201) \<and>
        snd (createUser nameV (JStr e) t1 t2 s) = s \<and>
        (truthy nameV \<and> \<not> nameInvalid nameV \<and> isValidEmail (JStr e) = Inr True \<longrightarrow>
           fst (createUser nameV (JStr e) t1 t2 s) =
             Sent \<lparr>status = 409, body = ErrorBody ''User with this email already exists''\<rparr>)) \<and>
   (\<forall>idParam i nameV e t.
      parseInt idParam = Some i \<and> (\<exists>u \<in> set (users s). id' u = i) \<and>
      (nameV = JUndefined \<or> \<not> nameInvalid nameV) \<and> isValidEmail (JStr e) = Inr True \<and>
      (\<exists>u \<in> set (users s). id' u \<noteq> i \<and> toLowerCase (email u) = toLowerCase e) \<longrightarrow>
        updateUser idParam nameV (JStr e) t s =
          (Sent \<lparr>status = 409,
                 body = ErrorBody ''Another user with this email already exists''\<rparr>, s))"
proof (intro conjI allI impI)
  assume "reachable s"
  then show "distinct (map (\<lambda>u. toLowerCase (email u)) (users s))"
    by (auto dest: reachable_wellFormed simp: wellFormed_def)
next
  fix nameV e t1 t2 r
  assume ex: "\<exists>u \<in> set (users s). toLowerCase (email u) = toLowerCase e"
    and r: "fst (createUser nameV (JStr e) t1 t2 s) = Sent r"
  obtain res s' where c: "createUserTry nameV (JStr e) t1 t2 s = (res, s')"
    by (cases "createUserTry nameV (JStr e) t1 t2 s")
  from createUserTry_cases[OF c] ex have "\<forall>r. res = Inr r \<longrightarrow> status r \<noteq> 201 \<and> s' = s"
    by auto
  with c r show "status r \<noteq> 201"
    by (auto simp: createUser_def internalServerError_def split: sum.splits)
next
  fix nameV e t1 t2
  assume ex: "\<exists>u \<in> set (users s). toLowerCase (email u) = toLowerCase e"
  then obtain u where "find (\<lambda>u. toLowerCase (email u) = toLowerCase e) (users s) = Some u"
    by (cases "find (\<lambda>u. toLowerCase (email u) = toLowerCase e) (users s)")
      (auto simp: find_None_iff)
  then show "snd (createUser nameV (JStr e) t1 t2 s) = s"
    by (auto simp: snd_createUser createUserTry_def isValidEmail_JStr findByEmail_JStr
        split: bool.splits)
next
  fix nameV e t1 t2
  assume ex: "\<exists>u \<in> set (users s). toLowerCase (email u) = toLowerCase e"
    and v: "truthy nameV \<and> \<not> nameInvalid nameV \<and> isValidEmail (JStr e) = Inr True"
  from ex obtain u where f: "find (\<lambda>u. toLowerCase (email u) = toLowerCase e) (users s) = Some u"
    by (cases "find (\<lambda>u. toLowerCase (email u) = toLowerCase e) (users s)")
      (auto simp: find_None_iff)
  from v have "e \<noteq> []" by (auto simp: isValidEmail_JStr dest: emailRegex_nonempty)
  with v f show "fst (createUser nameV (JStr e) t1 t2 s) =
             Sent \<lparr>status = 409, body = ErrorBody ''User with this email already exists''\<rparr>"
    by (auto simp: createUser_def createUserTry_def findByEmail_JStr)
next
  fix idParam i nameV e t
  assume a: "parseInt idParam = Some i \<and> (\<exists>u \<in> set (users s). id' u = i) \<and>
      (nameV = JUndefined \<or> \<not> nameInvalid nameV) \<and> isValidEmail (JStr e) = Inr True \<and>
      (\<exists>u \<in> set (users s). id' u \<noteq> i \<and> toLowerCase (email u) = toLowerCase e)"
  then obtain k where k: "findIndex (\<lambda>u. id' u = i) (users s) = Some k"
    by (cases "findIndex (\<lambda>u. id' u = i) (users s)") (auto simp: findIndex_None)
  from a obtain u where
    f: "find (\<lambda>u. toLowerCase (email u) = toLowerCase e \<and> id' u \<noteq> i) (users s) = Some u"
    by (cases "find (\<lambda>u. toLowerCase (email u) = toLowerCase e \<and> id' u \<noteq> i) (users s)")
      (auto simp: find_None_iff)
  from a k f show "updateUser idParam nameV (JStr e) t s =
          (Sent \<lparr>status = 409,
                 body = ErrorBody ''Another user with this email already exists''\<rparr>, s)"
    by (auto simp: updateUser_def updateUserTry_def checkEmail_def findOtherByEmail_JStr)
qed

text \<open>Witness for C5: the store after one create, and two requests on the sample data
  that reuse John's email in capitals.\<close>

theorem email_unique_witness:
  "distinct (map (\<lambda>u. toLowerCase (email u))
      (users (snd (handle (CreateUser (JStr ''Ann'') (JStr ''Ann@Example.com'') 1 2)
         (initialStore 0 0 0)))))
   \<and> createUser (JStr ''Johnny'') (JStr ''JOHN@example.com'') 1 2 (initialStore 0 0 0) =
       (Sent \<lparr>status = 409, body = ErrorBody ''User with this email already exists''\<rparr>,
        initialStore 0 0 0)
   \<and> updateUser ''2'' JUndefined (JStr ''JOHN@example.com'') 1 (initialStore 0 0 0) =
       (Sent \<lparr>status = 409, body = ErrorBody ''Another user with this email already exists''\<rparr>,
        initialStore 0 0 0)"
proof -
  let ?s = "initialStore 0 0 0"
  let ?s1 = "snd (handle (CreateUser (JStr ''Ann'') (JStr ''Ann@Example.com'') 1 2) ?s)"
  have r: "reachable ?s1" by (intro reachable.intros)
  have ex: "\<exists>u \<in> set (users ?s). toLowerCase (email u) = toLowerCase ''JOHN@example.com''"
    by (simp add: initialStore_def string_simps)
  have v: "truthy (JStr ''Johnny'') \<and> \<not> nameInvalid (JStr ''Johnny'') \<and>
     isValidEmail (JStr ''JOHN@example.com'') = Inr True"
    by (simp add: nameInvalid_def string_simps email_simps)
  have u: "parseInt ''2'' = Some 2 \<and> (\<exists>u \<in> set (users ?s). id' u = 2) \<and>
      (JUndefined = JUndefined \<or> \<not> nameInvalid JUndefined) \<and>
      isValidEmail (JStr ''JOHN@example.com'') = Inr True \<and>
      (\<exists>u \<in> set (users ?s). id' u \<noteq> 2 \<and>
         toLowerCase (email u) = toLowerCase ''JOHN@example.com'')"
    by (simp add: initialStore_def string_simps email_simps parse_simps)
  note t1 = email_unique[of ?s1, THEN conjunct1, rule_format, OF r]
  note t2 = email_unique[of ?s, THEN conjunct2, THEN conjunct1, rule_format, OF ex]
  note t3 = email_unique[of ?s, THEN conjunct2, THEN conjunct2, rule_format, OF u]
  from t2[of "JStr ''Johnny''" 1 2] v
  have c: "createUser (JStr ''Johnny'') (JStr ''JOHN@example.com'') 1 2 ?s =
       (Sent \<lparr>status = 409, body = ErrorBody ''User with this email already exists''\<rparr>, ?s)"
    by (simp add: prod_eq_iff)
  from t1 c t3 show ?thesis by simp
qed

text \<open>
  Claim C6: a successful update changes the target user only, and of it only the
  fields present in the payload and \<open>updatedAt\<close>: an absent name or email leaves the
  stored one as it was, a name or email that is present is stored trimmed (the email
  lowercased), \<open>id\<close> and \<open>createdAt\<close> stay, \<open>updatedAt\<close> is the reading of the clock,
  and every other user and the counter are unchanged.
\<close>

theorem update_frame:
  assumes u: "updateUser idParam nameV emailV t s = (Sent r, s')" and ok: "status r = 200"
  shows "\<exists>i k. parseInt idParam = Some i \<and>
      findIndex (\<lambda>u. id' u = i) (users s) = Some k \<and> k < length (users s) \<and>
      nextId s' = nextId s \<and> length (users s') = length (users s) \<and>
      (\<forall>j < length (users s). j \<noteq> k \<longrightarrow> users s' ! j = users s ! j) \<and>
      id' (users s' ! k) = id' (users s ! k) \<and>
      createdAt (users s' ! k) = createdAt (users s ! k) \<and>
      updatedAt (users s' ! k) = Some t \<and>
      (nameV = JUndefined \<and> name (users s' ! k) = name (users s ! k) \<or>
         (\<exists>n. nameV = JStr n \<and> name (users s' ! k) = trim n)) \<and>
      (emailV = JUndefined \<and> email (users s' ! k) = email (users s ! k) \<or>
         (\<exists>e. emailV = JStr e \<and> email (users s' ! k) = trim (toLowerCase e))) \<and>
      body r = MessageUserBody ''User updated successfully'' (users s' ! k)"
proof -
  obtain res where t: "updateUserTry idParam nameV emailV t s = (res, s')"
    and res: "res = Inr r"
    using u by (auto simp: updateUser_def split: prod.splits sum.splits)
  from res ok have "s' \<noteq> s \<or> (\<exists>r. res = Inr r \<and> status r = 200)" by simp
  with t obtain i k where i: "parseInt idParam = Some i"
    and k: "findIndex (\<lambda>u. id' u = i) (users s) = Some k"
    and kl: "k < length (users s)"
    and n: "nameV = JUndefined \<or> (\<exists>n. nameV = JStr n \<and> 2 \<le> length (trim n))"
    and e: "emailV = JUndefined \<or>
          (\<exists>e. emailV = JStr e \<and> matches emailRegex e \<and>
             (\<forall>u \<in> set (users s). toLowerCase (email u) = toLowerCase e \<longrightarrow> id' u = i))"
    and r': "res = Inr \<lparr>status = 200,
          body = MessageUserBody ''User updated successfully''
            ((users s ! k)
               \<lparr>name := (case nameV of JStr n \<Rightarrow> trim n | _ \<Rightarrow> name (users s ! k)),
                email := (case emailV of JStr e \<Rightarrow> trim (toLowerCase e)
                          | _ \<Rightarrow> email (users s ! k)),
                updatedAt := Some t\<rparr>)\<rparr>"
    and s': "s' = s\<lparr>users := (users s)[k :=
            (users s ! k)
               \<lparr>name := (case nameV of JStr n \<Rightarrow> trim n | _ \<Rightarrow> name (users s ! k)),
                email := (case emailV of JStr e \<Rightarrow> trim (toLowerCase e)
                          | _ \<Rightarrow> email (users s ! k)),
                updatedAt := Some t\<rparr>]\<rparr>"
    by (rule updateUserTry_changed)
  from r' res have b: "body r = MessageUserBody ''User updated successfully''
            ((users s ! k)
               \<lparr>name := (case nameV of JStr n \<Rightarrow> trim n | _ \<Rightarrow> name (users s ! k)),
                email := (case emailV of JStr e \<Rightarrow> trim (toLowerCase e)
                          | _ \<Rightarrow> email (users s ! k)),
                updatedAt := Some t\<rparr>)"
    by auto
  from kl n e b have "nextId s' = nextId s \<and> length (users s') = length (users s) \<and>
      (\<forall>j < length (users s). j \<noteq> k \<longrightarrow> users s' ! j = users s ! j) \<and>
      id' (users s' ! k) = id' (users s ! k) \<and>
      createdAt (users s' ! k) = createdAt (users s ! k) \<and>
      updatedAt (users s' ! k) = Some t \<and>
      (nameV = JUndefined \<and> name (users s' ! k) = name (users s ! k) \<or>
         (\<exists>n. nameV = JStr n \<and> name (users s' ! k) = trim n)) \<and>
      (emailV = JUndefined \<and> email (users s' ! k) = email (users s ! k) \<or>
         (\<exists>e. emailV = JStr e \<and> email (users s' ! k) = trim (toLowerCase e))) \<and>
      body r = MessageUserBody ''User updated successfully'' (users s' ! k)"
    unfolding s' by auto
  with i k kl show ?thesis by blast
qed

text \<open>Witness for C6: \<open>PUT users/2\<close> with a name only.\<close>

theorem update_frame_witness:
  "updateUser ''2'' (JStr ''Only Name Updated'') JUndefined 9 (initialStore 1 2 3) =
     (Sent \<lparr>status = 200,
            body = MessageUserBody ''User updated successfully''
              \<lparr>id' = 2, name = ''Only Name Updated'', email = ''jane@example.com'',
               createdAt = 2, updatedAt = Some 9\<rparr>\<rparr>,
      \<lparr>users =
        [\<lparr>id' = 1, name = ''John Doe'', email = ''john@example.com'',
          createdAt = 1, updatedAt = None\<rparr>,
         \<lparr>id' = 2, name = ''Only Name Updated'', email = ''jane@example.com'',
          createdAt = 2, updatedAt = Some 9\<rparr>,
         \<lparr>id' = 3, name = ''Bob Johnson'', email = ''bob@example.com'',
          createdAt = 3, updatedAt = None\<rparr>],
       nextId = 4\<rparr>)
   \<and> (\<exists>k. findIndex (\<lambda>u. id' u = 2) (users (initialStore 1 2 3)) = Some k \<and>
          email (users (snd (updateUser ''2'' (JStr ''Only Name Updated'') JUndefined 9
                   (initialStore 1 2 3))) ! k) = ''jane@example.com'')"
proof -
  let ?s = "initialStore 1 2 3"
  let ?r = "\<lparr>status = 200,
            body = MessageUserBody ''User updated successfully''
              \<lparr>id' = 2, name = ''Only Name Updated'', email = ''jane@example.com'',
               createdAt = 2, updatedAt = Some 9\<rparr>\<rparr>"
  let ?s' = "\<lparr>users =
        [\<lparr>id' = 1, name = ''John Doe'', email = ''john@example.com'',
          createdAt = 1, updatedAt = None\<rparr>,
         \<lparr>id' = 2, name = ''Only Name Updated'', email = ''jane@example.com'',
          createdAt = 2, updatedAt = Some 9\<rparr>,
         \<lparr>id' = 3, name = ''Bob Johnson'', email = ''bob@example.com'',
          createdAt = 3, updatedAt = None\<rparr>],
       nextId = 4\<rparr>"
  have u: "updateUser ''2'' (JStr ''Only Name Updated'') JUndefined 9 ?s = (Sent ?r, ?s')"
    by (simp add: update_simps initialStore_def parse_simps trim_def)
  have ok: "status ?r = 200" by simp
  have p: "parseInt ''2'' = Some 2" by (simp add: parse_simps)
  from update_frame[OF u ok] p obtain k where
    "findIndex (\<lambda>u. id' u = 2) (users ?s) = Some k"
    "email (users ?s' ! k) = email (users ?s ! k)"
    by auto
  moreover from this(1) have "k = 1" by (simp add: initialStore_def)
  ultimately have "\<exists>k. findIndex (\<lambda>u. id' u = 2) (users ?s) = Some k \<and>
     email (users ?s' ! k) = ''jane@example.com''"
    by (simp add: initialStore_def)
  with u show ?thesis by simp
qed

text \<open>
  Claim C7: in every reachable store each user has an \<open>updatedAt\<close> that is not before its
  \<open>createdAt\<close>; the sample users too carry both timestamps.

  The sample data does not: its three records have no \<open>updatedAt\<close> at all, and the
  initial store is reachable, so get answers user 1 without that field.
\<close>

theorem sample_users_have_no_updatedAt:
  "reachable (initialStore c1 c2 c3)
   \<and> map updatedAt (users (initialStore c1 c2 c3)) = [None, None, None]
   \<and> fst (getUserById ''1'' (initialStore c1 c2 c3)) =
       Sent \<lparr>status = 200,
             body = UserBody \<lparr>id' = 1, name = ''John Doe'', email = ''john@example.com'',
                              createdAt = c1, updatedAt = None\<rparr>\<rparr>"
proof -
  have "reachable (initialStore c1 c2 c3)" by (rule reachable.init)
  then show ?thesis
    by (simp add: getUserById_def parse_simps) (simp add: initialStore_def)
qed




text \<open>
  Claim C9: an internal failure in any handler is answered by that handler with 500 and
  the generic message, in the update handler as in the others.

  The update handler does not do this.  An email given as the array \<open>["a@b.c"]\<close> passes
  the pattern and makes \<open>email.toLowerCase()\<close> throw.  The create handler answers with
  500 and the generic body; the \<open>catch\<close> block of the update handler throws in turn and
  sends nothing.  What the client then receives is the answer of the global error
  middleware, which outside production carries the message of that second exception.
\<close>

theorem update_catch_block_throws:
  "updateUser ''1'' JUndefined (JArr [JStr ''a@b.c'']) t (initialStore c1 c2 c3) =
     (Threw (TypeError ''res.status.status is not a function''), initialStore c1 c2 c3)
   \<and> createUser (JStr ''Ab'') (JArr [JStr ''a@b.c'']) t1 t2 (initialStore c1 c2 c3) =
     (Sent \<lparr>status = 500, body = ErrorBody ''Internal server error''\<rparr>, initialStore c1 c2 c3)
   \<and> respond False (Threw (TypeError ''res.status.status is not a function'')) =
     \<lparr>status = 500,
      body = ErrorDetailsBody ''Internal server error''
               ''res.status.status is not a function''\<rparr>
   \<and> respond True (Threw (TypeError ''res.status.status is not a function'')) =
     \<lparr>status = 500, body = ErrorBody ''Internal server error''\<rparr>"
  by (simp add: update_simps create_simps email_simps initialStore_def parse_simps trim_def
      internalServerError_def respond_def errorMiddleware_def)

text \<open>
  Claim C10: a create request in which name or email is present but falsy (the empty
  string, \<open>null\<close>, \<open>0\<close> or \<open>false\<close>) is handled as if that field were absent: it is
  answered with 400 \<open>Validation failed\<close>, with \<open>Name is required\<close> and
  \<open>Email is required\<close> for exactly the fields that are falsy or absent, the store is
  unchanged, and no later check is reached.
\<close>

theorem falsy_field_is_missing:
  assumes "nameV \<in> {JStr [], JNull, JNum 0, JBool False} \<or>
           emailV \<in> {JStr [], JNull, JNum 0, JBool False}"
  shows "createUser nameV emailV t1 t2 s =
      (Sent \<lparr>status = 400,
             body = ValidationBody ''Validation failed''
               (if nameV \<in> {JUndefined, JStr [], JNull, JNum 0, JBool False}
                then Some ''Name is required'' else None)
               (if emailV \<in> {JUndefined, JStr [], JNull, JNum 0, JBool False}
                then Some ''Email is required'' else None)\<rparr>, s)
    \<and> createUser nameV emailV t1 t2 s =
      createUser
        (if nameV \<in> {JStr [], JNull, JNum 0, JBool False} then JUndefined else nameV)
        (if emailV \<in> {JStr [], JNull, JNum 0, JBool False} then JUndefined else emailV)
        t1 t2 s"
proof -
  have f: "(\<not> truthy v) = (v \<in> {JUndefined, JStr [], JNull, JNum 0, JBool False})" for v
    by (cases v) auto
  from assms have "\<not> truthy nameV \<or> \<not> truthy emailV" by (auto simp: f)
  then show ?thesis
    by (auto simp: createUser_def createUserTry_def f)
qed

text \<open>Witness for C10: an empty name with the email \<open>0\<close>, and the name \<open>null\<close>.\<close>

theorem falsy_field_is_missing_witness:
  "createUser (JStr []) (JNum 0) 1 2 (initialStore 0 0 0) =
      (Sent \<lparr>status = 400,
             body = ValidationBody ''Validation failed''
               (Some ''Name is required'') (Some ''Email is required'')\<rparr>, initialStore 0 0 0)
   \<and> createUser JNull (JStr ''john@example.com'') 1 2 (initialStore 0 0 0) =
      (Sent \<lparr>status = 400,
             body = ValidationBody ''Validation failed''
               (Some ''Name is required'') None\<rparr>, initialStore 0 0 0)"
proof -
  have a: "JStr [] \<in> {JStr [], JNull, JNum 0, JBool False} \<or>
           JNum 0 \<in> {JStr [], JNull, JNum 0, JBool False}" by simp
  have b: "JNull \<in> {JStr [], JNull, JNum 0, JBool False} \<or>
           JStr ''john@example.com'' \<in> {JStr [], JNull, JNum 0, JBool False}" by simp
  from falsy_field_is_missing[OF a, of 1 2 "initialStore 0 0 0"]
    falsy_field_is_missing[OF b, of 1 2 "initialStore 0 0 0"]
  show ?thesis by simp
qed

end
